theory Spec2Isabelle
  imports Complex_Main "HOL-Library.Log_Nat" "HOL-Library.AList" "HOL-Library.Multiset"
begin

section \<open>Numbers of the scoring engine\<close>

text \<open>
  \<^verbatim>\<open>calculateScore\<close> (client/src/lib/utils/quiz.ts) takes a JavaScript \<^verbatim>\<open>number\<close>: an IEEE
  binary64 value, finite or one of the three special values. Finite values are carried as
  rationals. Every arithmetic operation of the source rounds its exact result to the nearest
  binary64 value, ties to the even significand; \<open>round_double\<close> is that rounding. Overflow
  and the subnormal range are left out: for a binary64 response time in [5000, 10000), the
  only times the source computes with, every intermediate value is 0 or lies between
  2^-53 and 5000.
\<close>

datatype number = Finite rat | PosInfinity | NegInfinity | NaN

text \<open>The comparisons \<^verbatim>\<open><\<close> and \<^verbatim>\<open><=\<close> of JavaScript: false as soon as one side is NaN.\<close>

fun js_lt :: "number \<Rightarrow> number \<Rightarrow> bool" where
  "js_lt NaN y = False"
| "js_lt x NaN = False"
| "js_lt (Finite x) (Finite y) = (x < y)"
| "js_lt (Finite x) PosInfinity = True"
| "js_lt (Finite x) NegInfinity = False"
| "js_lt NegInfinity (Finite y) = True"
| "js_lt NegInfinity PosInfinity = True"
| "js_lt NegInfinity NegInfinity = False"
| "js_lt PosInfinity y = False"

fun js_le :: "number \<Rightarrow> number \<Rightarrow> bool" where
  "js_le NaN y = False"
| "js_le x NaN = False"
| "js_le (Finite x) (Finite y) = (x \<le> y)"
| "js_le (Finite x) PosInfinity = True"
| "js_le (Finite x) NegInfinity = False"
| "js_le NegInfinity y = True"
| "js_le PosInfinity (Finite y) = False"
| "js_le PosInfinity PosInfinity = True"
| "js_le PosInfinity NegInfinity = False"

text \<open>Rounding a rational to the nearest integer, a tie going to the even neighbour.\<close>

definition round_half_even :: "rat \<Rightarrow> int" where
  "round_half_even y =
     (let n = \<lfloor>y\<rfloor>; r = y - of_int n
      in if r < 1 / 2 then n else if 1 / 2 < r then n + 1 else if even n then n else n + 1)"

text \<open>The binary exponent of a positive rational: the \<open>e\<close> with \<open>2^e \<le> x < 2^(e+1)\<close>.\<close>

definition exponent :: "rat \<Rightarrow> int" where
  "exponent x = (if 1 \<le> x then bitlen \<lfloor>x\<rfloor> - 1 else - bitlen (\<lceil>1 / x\<rceil> - 1))"

text \<open>Round to nearest binary64: 53 significant bits, so the unit is \<open>2^(e - 52)\<close>.\<close>

definition round_double :: "rat \<Rightarrow> rat" where
  "round_double x =
     (if x = 0 then 0
      else let a = \<bar>x\<bar>; u = 2 powi (exponent a - 52)
           in sgn x * (of_int (round_half_even (a / u)) * u))"

section \<open>The scoring engine\<close>

text \<open>
  \<^verbatim>\<open>
  export const calculateScore = (isCorrect: boolean, responseTimeMs: number): number => {
    if (!isCorrect) return 0;
    let score = 100;
    if (responseTimeMs < 5000) {
      score += 50;
    } else if (responseTimeMs < 10000) {
      score += Math.floor(50 * (1 - (responseTimeMs - 5000) / 5000));
    }
    return score;
  };
  \<close>
  The result is always an integer-valued number, returned here as an \<open>int\<close>. Minus infinity
  takes the first branch; plus infinity and NaN fail both comparisons.
\<close>

fun calculateScore :: "bool \<Rightarrow> number \<Rightarrow> int" where
  "calculateScore False responseTimeMs = 0"
| "calculateScore True (Finite t) =
     (if t < 5000 then 100 + 50
      else if t < 10000 then
        100 + \<lfloor>round_double (50 * round_double (1 - round_double (round_double (t - 5000) / 5000)))\<rfloor>
      else 100)"
| "calculateScore True NegInfinity = 100 + 50"
| "calculateScore True PosInfinity = 100"
| "calculateScore True NaN = 100"

section \<open>The record store\<close>

text \<open>
  The shared schema declares the stored rows; \<^verbatim>\<open>id\<close> is the serial primary key of each table.
  Field names carry a prefix per type, since the same names (\<^verbatim>\<open>id\<close>, \<^verbatim>\<open>quizId\<close>, \<^verbatim>\<open>score\<close>)
  occur in several types. Integer columns are \<open>int\<close>; a timestamp is the clock reading in
  milliseconds, handed to the operation that calls \<^verbatim>\<open>new Date()\<close>.
\<close>

type_synonym Date = int

record Admin =
  adm_id :: int
  adm_username :: string
  adm_password :: string

record Quiz =
  quiz_id :: int
  quiz_adminId :: int
  quiz_title :: string
  quiz_timePerQuestion :: int
  quiz_status :: string
  quiz_code :: string
  quiz_createdAt :: Date

record QuizOption =
  opt_id :: int
  opt_text :: string
  opt_isCorrect :: bool

record Question =
  qst_id :: int
  qst_quizId :: int
  qst_text :: string
  qst_options :: "QuizOption list"
  qst_order :: int

text \<open>
  \<^verbatim>\<open>Partial<Participant>\<close> admits a key with the value \<^verbatim>\<open>undefined\<close>, and the object spread of
  \<^verbatim>\<open>updateParticipant\<close> copies it into the stored row. A field of a stored participant is
  therefore a value or \<^verbatim>\<open>undefined\<close> (\<open>None\<close>). The score is a number with an integer value,
  \<^verbatim>\<open>undefined\<close>, or NaN, which is what adding to \<^verbatim>\<open>undefined\<close> gives.
\<close>

datatype score = Points int | ScoreUndefined | ScoreNaN

record Participant =
  part_id :: "int option"
  part_quizId :: "int option"
  part_alias :: "string option"
  part_score :: score
  part_joinedAt :: "Date option"

text \<open>
  \<^verbatim>\<open>participant.score + answer.score\<close> is an addition of binary64 numbers: the exact sum
  of two integers, rounded. It is exact up to 2^53 and an integer beyond (overflow to
  Infinity, beyond 2^1024, is left out). Adding to \<^verbatim>\<open>undefined\<close> or to NaN gives NaN.
\<close>

definition js_add :: "int \<Rightarrow> int \<Rightarrow> int" where
  "js_add a b = \<lfloor>round_double (of_int a + of_int b)\<rfloor>"

fun js_plus :: "score \<Rightarrow> int \<Rightarrow> score" where
  "js_plus (Points s) a = Points (js_add s a)"
| "js_plus ScoreUndefined a = ScoreNaN"
| "js_plus ScoreNaN a = ScoreNaN"

text \<open>\<^verbatim>\<open><=\<close> on scores: false as soon as one side is \<^verbatim>\<open>undefined\<close> or NaN.\<close>

fun score_le :: "score \<Rightarrow> score \<Rightarrow> bool" where
  "score_le (Points a) (Points b) = (a \<le> b)"
| "score_le a b = False"


text \<open>An integer that is a binary64 value, as every integer-valued JavaScript number is.\<close>

definition representable :: "int \<Rightarrow> bool" where
  "representable n \<longleftrightarrow> round_double (of_int n) = of_int n"

record Answer =
  ans_id :: int
  ans_participantId :: int
  ans_questionId :: int
  ans_selectedOption :: int
  ans_isCorrect :: bool
  ans_responseTime :: int
  ans_score :: int

text \<open>
  The insert types pick the columns a caller supplies. A column with a default
  (\<^verbatim>\<open>timePerQuestion\<close>, \<^verbatim>\<open>status\<close>, \<^verbatim>\<open>score\<close>) may be left out: \<open>None\<close> is \<^verbatim>\<open>undefined\<close>.
\<close>

record InsertAdmin =
  iadm_username :: string
  iadm_password :: string

record InsertQuiz =
  iquiz_adminId :: int
  iquiz_title :: string
  iquiz_timePerQuestion :: "int option"
  iquiz_status :: "string option"
  iquiz_code :: string

record InsertQuestion =
  iqst_quizId :: int
  iqst_text :: string
  iqst_options :: "QuizOption list"
  iqst_order :: int

record InsertParticipant =
  ipart_quizId :: int
  ipart_alias :: string
  ipart_score :: "int option"

record InsertAnswer =
  ians_participantId :: int
  ians_questionId :: int
  ians_selectedOption :: int
  ians_isCorrect :: bool
  ians_responseTime :: int
  ians_score :: int

text \<open>
  \<^verbatim>\<open>Partial<T>\<close>: every key of the row may be present or absent (\<open>None\<close>). The object spread
  \<^verbatim>\<open>{ ...existing, ...patch }\<close> takes each field from the patch where the key is present.
  A quiz or question patch is the parsed JSON body of a request or the literal
  \<^verbatim>\<open>{ status: ... }\<close>, so a key that is present holds a value. For participants the
  properties below range over every patch the type admits: a key that is present holds a
  value or \<^verbatim>\<open>undefined\<close>.
\<close>

record PartialQuiz =
  pquiz_id :: "int option"
  pquiz_adminId :: "int option"
  pquiz_title :: "string option"
  pquiz_timePerQuestion :: "int option"
  pquiz_status :: "string option"
  pquiz_code :: "string option"
  pquiz_createdAt :: "Date option"

record PartialQuestion =
  pqst_id :: "int option"
  pqst_quizId :: "int option"
  pqst_text :: "string option"
  pqst_options :: "QuizOption list option"
  pqst_order :: "int option"

record PartialParticipant =
  ppart_id :: "int option option"
  ppart_quizId :: "int option option"
  ppart_alias :: "string option option"
  ppart_score :: "score option"
  ppart_joinedAt :: "Date option option"

definition orElse :: "'a option \<Rightarrow> 'a \<Rightarrow> 'a" where
  "orElse patch existing = (case patch of None \<Rightarrow> existing | Some v \<Rightarrow> v)"

definition spreadQuiz :: "Quiz \<Rightarrow> PartialQuiz \<Rightarrow> Quiz" where
  "spreadQuiz existing patch =
     \<lparr>quiz_id = orElse (pquiz_id patch) (quiz_id existing),
      quiz_adminId = orElse (pquiz_adminId patch) (quiz_adminId existing),
      quiz_title = orElse (pquiz_title patch) (quiz_title existing),
      quiz_timePerQuestion = orElse (pquiz_timePerQuestion patch) (quiz_timePerQuestion existing),
      quiz_status = orElse (pquiz_status patch) (quiz_status existing),
      quiz_code = orElse (pquiz_code patch) (quiz_code existing),
      quiz_createdAt = orElse (pquiz_createdAt patch) (quiz_createdAt existing)\<rparr>"

definition spreadQuestion :: "Question \<Rightarrow> PartialQuestion \<Rightarrow> Question" where
  "spreadQuestion existing patch =
     \<lparr>qst_id = orElse (pqst_id patch) (qst_id existing),
      qst_quizId = orElse (pqst_quizId patch) (qst_quizId existing),
      qst_text = orElse (pqst_text patch) (qst_text existing),
      qst_options = orElse (pqst_options patch) (qst_options existing),
      qst_order = orElse (pqst_order patch) (qst_order existing)\<rparr>"

definition spreadParticipant :: "Participant \<Rightarrow> PartialParticipant \<Rightarrow> Participant" where
  "spreadParticipant existing patch =
     \<lparr>part_id = orElse (ppart_id patch) (part_id existing),
      part_quizId = orElse (ppart_quizId patch) (part_quizId existing),
      part_alias = orElse (ppart_alias patch) (part_alias existing),
      part_score = orElse (ppart_score patch) (part_score existing),
      part_joinedAt = orElse (ppart_joinedAt patch) (part_joinedAt existing)\<rparr>"

text \<open>The patch \<^verbatim>\<open>{ score: updatedScore }\<close> that \<^verbatim>\<open>createAnswer\<close> passes on.\<close>

definition scorePatch :: "score \<Rightarrow> PartialParticipant" where
  "scorePatch updatedScore =
     \<lparr>ppart_id = None, ppart_quizId = None, ppart_alias = None,
      ppart_score = Some updatedScore, ppart_joinedAt = None\<rparr>"

subsection \<open>MemStorage\<close>

text \<open>
  A JavaScript \<^verbatim>\<open>Map\<close> iterates in insertion order, and \<^verbatim>\<open>set\<close> on a key already present
  replaces the value where it stands. Each map of the class is therefore an association list
  in insertion order: \<^verbatim>\<open>get\<close> is \<open>map_of\<close>, \<^verbatim>\<open>set\<close> is \<open>AList.update\<close>, \<^verbatim>\<open>delete\<close> is
  \<open>AList.delete\<close>, \<^verbatim>\<open>values()\<close> is \<open>map snd\<close>. The five counters are the next ids.

  A method takes the store and returns its result with the store it leaves. The event loop
  runs the code between two \<^verbatim>\<open>await\<close>s as one step, and other calls may run between the
  steps of one call. The methods that read or write nothing after their first \<^verbatim>\<open>await\<close>
  are one step. \<^verbatim>\<open>createAnswer\<close> writes on both sides of an \<^verbatim>\<open>await\<close> and is given step by
  step below. The two delete methods also \<^verbatim>\<open>await\<close> between their reads and their deletions;
  they are given as run to completion, and their single deletions are given on their own
  further down, for the runs in which other calls fall between them.
\<close>

record MemStorage =
  admins :: "(int \<times> Admin) list"
  quizzes :: "(int \<times> Quiz) list"
  questions :: "(int \<times> Question) list"
  participants :: "(int \<times> Participant) list"
  answers :: "(int \<times> Answer) list"
  adminId :: int
  quizId :: int
  questionId :: int
  participantId :: int
  answerId :: int

text \<open>
  \<^verbatim>\<open>Array.prototype.sort\<close> with a comparator: a stable sort (ECMAScript 2019), \<open>a\<close> before
  \<open>b\<close> when \<open>cmp a b < 0\<close>, the given order kept when \<open>cmp a b = 0\<close>. For a comparator that
  is a difference of keys the result of a stable sort is unique; it is computed here by
  insertion from the right.
\<close>

fun insort_cmp :: "('a \<Rightarrow> 'a \<Rightarrow> int) \<Rightarrow> 'a \<Rightarrow> 'a list \<Rightarrow> 'a list" where
  "insort_cmp cmp x [] = [x]"
| "insort_cmp cmp x (y # ys) = (if cmp x y \<le> 0 then x # y # ys else y # insort_cmp cmp x ys)"

definition array_sort :: "('a \<Rightarrow> 'a \<Rightarrow> int) \<Rightarrow> 'a list \<Rightarrow> 'a list" where
  "array_sort cmp xs = foldr (insort_cmp cmp) xs []"

subsubsection \<open>Admin methods\<close>

definition getAdmin :: "MemStorage \<Rightarrow> int \<Rightarrow> Admin option" where
  "getAdmin st i = map_of (admins st) i"

definition getAdminByUsername :: "MemStorage \<Rightarrow> string \<Rightarrow> Admin option" where
  "getAdminByUsername st username =
     find (\<lambda>admin. adm_username admin = username) (map snd (admins st))"

definition createAdmin :: "MemStorage \<Rightarrow> InsertAdmin \<Rightarrow> Admin \<times> MemStorage" where
  "createAdmin st admin =
     (let i = adminId st;
          newAdmin = \<lparr>adm_id = i, adm_username = iadm_username admin,
                      adm_password = iadm_password admin\<rparr>
      in (newAdmin, st\<lparr>adminId := i + 1, admins := AList.update i newAdmin (admins st)\<rparr>))"

subsubsection \<open>Quiz methods\<close>

definition getQuiz :: "MemStorage \<Rightarrow> int \<Rightarrow> Quiz option" where
  "getQuiz st i = map_of (quizzes st) i"

definition getQuizByCode :: "MemStorage \<Rightarrow> string \<Rightarrow> Quiz option" where
  "getQuizByCode st code = find (\<lambda>quiz. quiz_code quiz = code) (map snd (quizzes st))"

definition getQuizzesByAdmin :: "MemStorage \<Rightarrow> int \<Rightarrow> Quiz list" where
  "getQuizzesByAdmin st a = filter (\<lambda>quiz. quiz_adminId quiz = a) (map snd (quizzes st))"

text \<open>
  \<^verbatim>\<open>quiz.timePerQuestion || 15\<close> and \<^verbatim>\<open>quiz.status || 'draft'\<close>: the default also replaces
  the falsy values 0 and the empty string.
\<close>

definition createQuiz :: "MemStorage \<Rightarrow> Date \<Rightarrow> InsertQuiz \<Rightarrow> Quiz \<times> MemStorage" where
  "createQuiz st now quiz =
     (let i = quizId st;
          createdAt = now;
          newQuiz = \<lparr>quiz_id = i, quiz_adminId = iquiz_adminId quiz, quiz_title = iquiz_title quiz,
                     quiz_timePerQuestion =
                       (case iquiz_timePerQuestion quiz of
                          None \<Rightarrow> 15 | Some t \<Rightarrow> if t = 0 then 15 else t),
                     quiz_status =
                       (case iquiz_status quiz of
                          None \<Rightarrow> ''draft'' | Some s \<Rightarrow> if s = [] then ''draft'' else s),
                     quiz_code = iquiz_code quiz, quiz_createdAt = createdAt\<rparr>
      in (newQuiz, st\<lparr>quizId := i + 1, quizzes := AList.update i newQuiz (quizzes st)\<rparr>))"

definition updateQuiz :: "MemStorage \<Rightarrow> int \<Rightarrow> PartialQuiz \<Rightarrow> Quiz option \<times> MemStorage" where
  "updateQuiz st i quiz =
     (case map_of (quizzes st) i of
        None \<Rightarrow> (None, st)
      | Some existingQuiz \<Rightarrow>
          (let updatedQuiz = spreadQuiz existingQuiz quiz
           in (Some updatedQuiz, st\<lparr>quizzes := AList.update i updatedQuiz (quizzes st)\<rparr>)))"

subsubsection \<open>Question methods\<close>

definition getQuestion :: "MemStorage \<Rightarrow> int \<Rightarrow> Question option" where
  "getQuestion st i = map_of (questions st) i"

definition getQuestionsByQuiz :: "MemStorage \<Rightarrow> int \<Rightarrow> Question list" where
  "getQuestionsByQuiz st q =
     array_sort (\<lambda>a b. qst_order a - qst_order b)
       (filter (\<lambda>question. qst_quizId question = q) (map snd (questions st)))"

definition createQuestion :: "MemStorage \<Rightarrow> InsertQuestion \<Rightarrow> Question \<times> MemStorage" where
  "createQuestion st question =
     (let i = questionId st;
          newQuestion = \<lparr>qst_id = i, qst_quizId = iqst_quizId question,
                         qst_text = iqst_text question, qst_options = iqst_options question,
                         qst_order = iqst_order question\<rparr>
      in (newQuestion,
          st\<lparr>questionId := i + 1, questions := AList.update i newQuestion (questions st)\<rparr>))"

definition updateQuestion ::
  "MemStorage \<Rightarrow> int \<Rightarrow> PartialQuestion \<Rightarrow> Question option \<times> MemStorage" where
  "updateQuestion st i question =
     (case map_of (questions st) i of
        None \<Rightarrow> (None, st)
      | Some existingQuestion \<Rightarrow>
          (let updatedQuestion = spreadQuestion existingQuestion question
           in (Some updatedQuestion,
               st\<lparr>questions := AList.update i updatedQuestion (questions st)\<rparr>)))"

subsubsection \<open>Participant methods\<close>

definition getParticipant :: "MemStorage \<Rightarrow> int \<Rightarrow> Participant option" where
  "getParticipant st i = map_of (participants st) i"

definition getParticipantsByQuiz :: "MemStorage \<Rightarrow> int \<Rightarrow> Participant list" where
  "getParticipantsByQuiz st q =
     filter (\<lambda>participant. part_quizId participant = Some q) (map snd (participants st))"

text \<open>\<^verbatim>\<open>participant.score ?? 0\<close>: zero only when the insert record carries no score.\<close>

definition createParticipant ::
  "MemStorage \<Rightarrow> Date \<Rightarrow> InsertParticipant \<Rightarrow> Participant \<times> MemStorage" where
  "createParticipant st now participant =
     (let i = participantId st;
          joinedAt = now;
          newParticipant = \<lparr>part_id = Some i, part_quizId = Some (ipart_quizId participant),
                            part_alias = Some (ipart_alias participant),
                            part_score =
                              Points (case ipart_score participant of None \<Rightarrow> 0 | Some s \<Rightarrow> s),
                            part_joinedAt = Some joinedAt\<rparr>
      in (newParticipant,
          st\<lparr>participantId := i + 1,
             participants := AList.update i newParticipant (participants st)\<rparr>))"

definition updateParticipant ::
  "MemStorage \<Rightarrow> int \<Rightarrow> PartialParticipant \<Rightarrow> Participant option \<times> MemStorage" where
  "updateParticipant st i participant =
     (case map_of (participants st) i of
        None \<Rightarrow> (None, st)
      | Some existingParticipant \<Rightarrow>
          (let updatedParticipant = spreadParticipant existingParticipant participant
           in (Some updatedParticipant,
               st\<lparr>participants := AList.update i updatedParticipant (participants st)\<rparr>)))"

subsubsection \<open>Answer methods\<close>


definition getAnswersByParticipant :: "MemStorage \<Rightarrow> int \<Rightarrow> Answer list" where
  "getAnswersByParticipant st p =
     filter (\<lambda>answer. ans_participantId answer = p) (map snd (answers st))"

definition getAnswersByQuestion :: "MemStorage \<Rightarrow> int \<Rightarrow> Answer list" where
  "getAnswersByQuestion st q =
     filter (\<lambda>answer. ans_questionId answer = q) (map snd (answers st))"

text \<open>
  \<^verbatim>\<open>
  async createAnswer(answer: InsertAnswer): Promise<Answer> {
    const id = this.answerId++;
    const newAnswer: Answer = { ...answer, id };
    this.answers.set(id, newAnswer);

    // Update participant score
    const participant = await this.getParticipant(answer.participantId);
    if (participant) {
      const updatedScore = participant.score + answer.score;
      await this.updateParticipant(participant.id, { score: updatedScore });
    }

    return newAnswer;
  }
  \<close>
  There is no lookup of an earlier answer. \<^verbatim>\<open>getParticipant\<close> reads the map when it is
  called, so the first step of the method is everything up to the first \<^verbatim>\<open>await\<close>: it takes
  the id, stores the answer and reads the participant. Stored rows are never changed in
  place (an update stores a new object), so the participant the first step has read keeps
  the score it had then.
\<close>

definition createAnswerStart ::
  "MemStorage \<Rightarrow> InsertAnswer \<Rightarrow> (Answer \<times> Participant option) \<times> MemStorage" where
  "createAnswerStart st answer =
     (let i = answerId st;
          newAnswer = \<lparr>ans_id = i, ans_participantId = ians_participantId answer,
                       ans_questionId = ians_questionId answer,
                       ans_selectedOption = ians_selectedOption answer,
                       ans_isCorrect = ians_isCorrect answer,
                       ans_responseTime = ians_responseTime answer,
                       ans_score = ians_score answer\<rparr>;
          st1 = st\<lparr>answerId := i + 1, answers := AList.update i newAnswer (answers st)\<rparr>
      in ((newAnswer, getParticipant st1 (ians_participantId answer)), st1))"

text \<open>
  The second step runs after the \<^verbatim>\<open>await\<close>, on the store as it is by then. It adds the
  answer's score to the score of the participant read in the first step and hands the sum to
  \<^verbatim>\<open>updateParticipant\<close> under the key \<^verbatim>\<open>participant.id\<close>, the id field of that participant.
  With an id of \<^verbatim>\<open>undefined\<close> the lookup finds nothing.
\<close>

definition createAnswerFinish ::
  "MemStorage \<Rightarrow> InsertAnswer \<Rightarrow> Participant option \<Rightarrow> MemStorage" where
  "createAnswerFinish st answer read =
     (case read of
        None \<Rightarrow> st
      | Some participant \<Rightarrow>
          (let updatedScore = js_plus (part_score participant) (ians_score answer)
           in case part_id participant of
                None \<Rightarrow> st
              | Some i \<Rightarrow> snd (updateParticipant st i (scorePatch updatedScore))))"

text \<open>The whole method when no other call runs between its two steps.\<close>

definition createAnswer :: "MemStorage \<Rightarrow> InsertAnswer \<Rightarrow> Answer \<times> MemStorage" where
  "createAnswer st answer =
     (let ((newAnswer, read), st1) = createAnswerStart st answer
      in (newAnswer, createAnswerFinish st1 answer read))"

subsubsection \<open>Deleting\<close>

text \<open>
  The loop \<^verbatim>\<open>for (const answer of answers) { this.answers.delete(answer.id); }\<close> of both
  delete methods, and the body of the loop of \<^verbatim>\<open>deleteQuiz\<close> over the quiz's participants.
  No answer has the participant id \<^verbatim>\<open>undefined\<close> and no key of the map is \<^verbatim>\<open>undefined\<close>, so
  for a participant without an id that body deletes nothing.
\<close>

definition deleteAnswers :: "Answer list \<Rightarrow> MemStorage \<Rightarrow> MemStorage" where
  "deleteAnswers as st =
     fold (\<lambda>answer s. s\<lparr>answers := AList.delete (ans_id answer) (answers s)\<rparr>) as st"

definition deleteQuestion :: "MemStorage \<Rightarrow> int \<Rightarrow> bool \<times> MemStorage" where
  "deleteQuestion st i =
     (let st1 = deleteAnswers (getAnswersByQuestion st i) st
      in (map_of (questions st1) i \<noteq> None,
          st1\<lparr>questions := AList.delete i (questions st1)\<rparr>))"

definition deleteQuizParticipant :: "Participant \<Rightarrow> MemStorage \<Rightarrow> MemStorage" where
  "deleteQuizParticipant participant st =
     (case part_id participant of
        None \<Rightarrow> st
      | Some i \<Rightarrow>
          (let st1 = deleteAnswers (getAnswersByParticipant st i) st
           in st1\<lparr>participants := AList.delete i (participants st1)\<rparr>))"

definition deleteQuiz :: "MemStorage \<Rightarrow> int \<Rightarrow> bool \<times> MemStorage" where
  "deleteQuiz st i =
     (let st1 = fold (\<lambda>question s. snd (deleteQuestion s (qst_id question)))
                  (getQuestionsByQuiz st i) st;
          st2 = fold deleteQuizParticipant (getParticipantsByQuiz st1 i) st1
      in (map_of (quizzes st2) i \<noteq> None, st2\<lparr>quizzes := AList.delete i (quizzes st2)\<rparr>))"

subsubsection \<open>Special methods\<close>


text \<open>
  \<^verbatim>\<open>
  async generateQuizCode(): Promise<string> {
    const characters = 'ABCDEFGHJKLMNPQRSTUVWXYZ23456789';
    let code = '';
    for (let i = 0; i < 6; i++) {
      const randomIndex = crypto.randomInt(0, characters.length);
      code += characters.charAt(randomIndex);
    }
    const existingQuiz = await this.getQuizByCode(code);
    if (existingQuiz) {
      return this.generateQuizCode();
    }
    return code;
  }
  \<close>
  The random source is a parameter: \<open>randomInt k\<close> is what the \<open>k\<close>-th call of
  \<^verbatim>\<open>crypto.randomInt(0, characters.length)\<close> returns, and \<open>n\<close> counts the calls made so far.
  The method retries as long as the drawn code is taken, so it need not return: not returning
  is the value \<open>None\<close>.
\<close>

definition characters :: string where
  "characters = ''ABCDEFGHJKLMNPQRSTUVWXYZ23456789''"

definition charAt :: "string \<Rightarrow> nat \<Rightarrow> string" where
  "charAt s i = (if i < length s then [s ! i] else [])"

definition drawCode :: "(nat \<Rightarrow> nat) \<Rightarrow> nat \<Rightarrow> string" where
  "drawCode randomInt n = fold (\<lambda>i code. code @ charAt characters (randomInt (n + i))) [0..<6] []"

partial_function (option) generateQuizCode ::
  "MemStorage \<Rightarrow> (nat \<Rightarrow> nat) \<Rightarrow> nat \<Rightarrow> string option" where
  "generateQuizCode st randomInt n =
     (let code = drawCode randomInt n
      in if getQuizByCode st code \<noteq> None then generateQuizCode st randomInt (n + 6)
         else Some code)"

declare generateQuizCode.simps [code]

subsection \<open>DatabaseStorage\<close>


subsubsection \<open>The constructor\<close>

text \<open>
  The constructor starts every counter at 1, adds the default admin and the sample quiz, and
  the callback of the quiz's promise adds the two sample questions.
\<close>

definition emptyStorage :: MemStorage where
  "emptyStorage =
     \<lparr>admins = [], quizzes = [], questions = [], participants = [], answers = [],
      adminId = 1, quizId = 1, questionId = 1, participantId = 1, answerId = 1\<rparr>"

definition newMemStorage :: "Date \<Rightarrow> MemStorage" where
  "newMemStorage now =
     (let st1 = snd (createAdmin emptyStorage
                  \<lparr>iadm_username = ''admin'', iadm_password = ''password''\<rparr>);
          (quiz, st2) = createQuiz st1 now
                  \<lparr>iquiz_adminId = 1, iquiz_title = ''Geography Quiz'',
                   iquiz_timePerQuestion = Some 15, iquiz_status = Some ''active'',
                   iquiz_code = ''GEO123''\<rparr>;
          st3 = snd (createQuestion st2
                  \<lparr>iqst_quizId = quiz_id quiz, iqst_text = ''What is the capital of France?'',
                   iqst_options =
                     [\<lparr>opt_id = 0, opt_text = ''Paris'', opt_isCorrect = True\<rparr>,
                      \<lparr>opt_id = 1, opt_text = ''London'', opt_isCorrect = False\<rparr>,
                      \<lparr>opt_id = 2, opt_text = ''Berlin'', opt_isCorrect = False\<rparr>,
                      \<lparr>opt_id = 3, opt_text = ''Madrid'', opt_isCorrect = False\<rparr>],
                   iqst_order = 0\<rparr>)
      in snd (createQuestion st3
                  \<lparr>iqst_quizId = quiz_id quiz,
                   iqst_text = ''Which river is the longest in the world?'',
                   iqst_options =
                     [\<lparr>opt_id = 0, opt_text = ''Amazon'', opt_isCorrect = False\<rparr>,
                      \<lparr>opt_id = 1, opt_text = ''Nile'', opt_isCorrect = True\<rparr>,
                      \<lparr>opt_id = 2, opt_text = ''Mississippi'', opt_isCorrect = False\<rparr>,
                      \<lparr>opt_id = 3, opt_text = ''Yangtze'', opt_isCorrect = False\<rparr>],
                   iqst_order = 1\<rparr>))"

subsection \<open>Well-formed stores and sequences of operations\<close>

text \<open>
  What the counters maintain: every key in use lies below its counter, so the next
  \<^verbatim>\<open>set\<close> under a fresh id adds a new entry at the end of the map.
\<close>

definition answersFresh :: "MemStorage \<Rightarrow> bool" where
  "answersFresh st = list_all (\<lambda>k. k < answerId st) (map fst (answers st))"

definition participantsFresh :: "MemStorage \<Rightarrow> bool" where
  "participantsFresh st = list_all (\<lambda>k. k < participantId st) (map fst (participants st))"

text \<open>Every participant is stored under its own id, as \<^verbatim>\<open>createParticipant\<close> stores it.\<close>

definition participantsKeyed :: "MemStorage \<Rightarrow> bool" where
  "participantsKeyed st = list_all (\<lambda>kp. part_id (snd kp) = Some (fst kp)) (participants st)"

text \<open>Every score is a number, as \<^verbatim>\<open>createParticipant\<close> and \<^verbatim>\<open>createAnswer\<close> store it.\<close>

fun isNumber :: "score \<Rightarrow> bool" where
  "isNumber (Points n) = representable n"
| "isNumber s = False"

definition participantsNumeric :: "MemStorage \<Rightarrow> bool" where
  "participantsNumeric st = list_all (\<lambda>kp. isNumber (part_score (snd kp))) (participants st)"

text \<open>
  The mutating methods of the storage interface, as values, and the store each leaves when
  it runs to completion.
\<close>

datatype operation =
    CreateAdmin InsertAdmin
  | CreateQuiz Date InsertQuiz
  | UpdateQuiz int PartialQuiz
  | DeleteQuiz int
  | CreateQuestion InsertQuestion
  | UpdateQuestion int PartialQuestion
  | DeleteQuestion int
  | CreateParticipant Date InsertParticipant
  | UpdateParticipant int PartialParticipant
  | CreateAnswer InsertAnswer

fun perform :: "operation \<Rightarrow> MemStorage \<Rightarrow> MemStorage" where
  "perform (CreateAdmin admin) st = snd (createAdmin st admin)"
| "perform (CreateQuiz now quiz) st = snd (createQuiz st now quiz)"
| "perform (UpdateQuiz i quiz) st = snd (updateQuiz st i quiz)"
| "perform (DeleteQuiz i) st = snd (deleteQuiz st i)"
| "perform (CreateQuestion question) st = snd (createQuestion st question)"
| "perform (UpdateQuestion i question) st = snd (updateQuestion st i question)"
| "perform (DeleteQuestion i) st = snd (deleteQuestion st i)"
| "perform (CreateParticipant now participant) st = snd (createParticipant st now participant)"
| "perform (UpdateParticipant i participant) st = snd (updateParticipant st i participant)"
| "perform (CreateAnswer answer) st = snd (createAnswer st answer)"

text \<open>
  The operations that touch a score only by adding the points of an answer: an
  \<^verbatim>\<open>updateParticipant\<close> whose patch has neither the key \<^verbatim>\<open>id\<close> nor the key \<^verbatim>\<open>score\<close>, a
  \<^verbatim>\<open>createAnswer\<close> whose points are not negative (the scoring engine awards 0 to 150), a
  \<^verbatim>\<open>createParticipant\<close> whose score, if it has one, is an integer-valued number, and every
  other method.
\<close>

fun incrementsOnly :: "operation \<Rightarrow> bool" where
  "incrementsOnly (UpdateParticipant i participant) =
     (ppart_id participant = None \<and> ppart_score participant = None)"
| "incrementsOnly (CreateAnswer answer) = (0 \<le> ians_score answer)"
| "incrementsOnly (CreateParticipant now participant) =
     (case ipart_score participant of None \<Rightarrow> True | Some s \<Rightarrow> representable s)"
| "incrementsOnly operation = True"

subsection \<open>Calls in flight\<close>

text \<open>
  The server handles every message in its own asynchronous handler, so a call of a storage
  method may start while other calls wait at an \<^verbatim>\<open>await\<close>. A \<^verbatim>\<open>createAnswer\<close> call that has
  done its first step waits with its argument and the participant it has read. The writes of
  the delete methods after their first \<^verbatim>\<open>await\<close> are deletions of single entries
  (\<^verbatim>\<open>this.answers.delete(answer.id)\<close>, \<^verbatim>\<open>this.participants.delete(participant.id)\<close>,
  \<^verbatim>\<open>this.questions.delete(id)\<close>, \<^verbatim>\<open>this.quizzes.delete(id)\<close>), each of which may fall
  anywhere among the steps of other calls.
\<close>

datatype deletion =
    AnswersDelete int
  | QuestionsDelete int
  | ParticipantsDelete int
  | QuizzesDelete int

fun performDeletion :: "deletion \<Rightarrow> MemStorage \<Rightarrow> MemStorage" where
  "performDeletion (AnswersDelete i) st = st\<lparr>answers := AList.delete i (answers st)\<rparr>"
| "performDeletion (QuestionsDelete i) st = st\<lparr>questions := AList.delete i (questions st)\<rparr>"
| "performDeletion (ParticipantsDelete i) st = st\<lparr>participants := AList.delete i (participants st)\<rparr>"
| "performDeletion (QuizzesDelete i) st = st\<lparr>quizzes := AList.delete i (quizzes st)\<rparr>"

text \<open>
  What the event loop runs next: a method from its call to its end with nothing in between,
  one deletion of a delete method, the first step of a new \<^verbatim>\<open>createAnswer\<close> call, or the
  second step of the \<^verbatim>\<open>createAnswer\<close> call at position \<open>n\<close> among the waiting ones.
\<close>

datatype event =
    Call operation
  | Deletes deletion
  | CreateAnswerStarts InsertAnswer
  | CreateAnswerFinishes nat

fun step ::
  "event \<Rightarrow> MemStorage \<times> (InsertAnswer \<times> Participant option) list
     \<Rightarrow> MemStorage \<times> (InsertAnswer \<times> Participant option) list" where
  "step (Call operation) (st, waiting) = (perform operation st, waiting)"
| "step (Deletes d) (st, waiting) = (performDeletion d st, waiting)"
| "step (CreateAnswerStarts answer) (st, waiting) =
     (let ((newAnswer, read), st1) = createAnswerStart st answer
      in (st1, waiting @ [(answer, read)]))"
| "step (CreateAnswerFinishes n) (st, waiting) =
     (if n < length waiting
      then (createAnswerFinish st (fst (waiting ! n)) (snd (waiting ! n)),
            take n waiting @ drop (Suc n) waiting)
      else (st, waiting))"

text \<open>No waiting \<^verbatim>\<open>createAnswer\<close> call is for participant \<open>i\<close>.\<close>

definition notWaiting :: "int \<Rightarrow> (InsertAnswer \<times> Participant option) list \<Rightarrow> bool" where
  "notWaiting i waiting = list_all (\<lambda>w. ians_participantId (fst w) \<noteq> i) waiting"

text \<open>
  The events that touch a score only by adding the points of an answer to the score as it
  stands: a call that is \<open>incrementsOnly\<close>, any deletion, any second step, and a
  \<^verbatim>\<open>createAnswer\<close> call, run in one go or only started, whose points are not negative and
  that starts while no other \<^verbatim>\<open>createAnswer\<close> call for the same participant waits.
\<close>

definition admitted :: "event \<Rightarrow> (InsertAnswer \<times> Participant option) list \<Rightarrow> bool" where
  "admitted e waiting =
     (case e of
        Call operation \<Rightarrow>
          incrementsOnly operation \<and>
          (case operation of
             CreateAnswer answer \<Rightarrow> notWaiting (ians_participantId answer) waiting
           | _ \<Rightarrow> True)
      | Deletes d \<Rightarrow> True
      | CreateAnswerStarts answer \<Rightarrow>
          0 \<le> ians_score answer \<and> notWaiting (ians_participantId answer) waiting
      | CreateAnswerFinishes n \<Rightarrow> True)"

fun admittedRun ::
  "event list \<Rightarrow> MemStorage \<times> (InsertAnswer \<times> Participant option) list \<Rightarrow> bool" where
  "admittedRun [] c = True"
| "admittedRun (e # es) c = (admitted e (snd c) \<and> admittedRun es (step e c))"

text \<open>
  What one such event keeps between the store \<open>st\<close> before and the store \<open>st'\<close> after it:
  the store stays well-formed, the participant counter does not go back, and a participant
  of \<open>st\<close> that is still stored has at least the score it had, and the very score it had
  unless its key is in \<open>K\<close>.
\<close>

definition scoresKept :: "int set \<Rightarrow> MemStorage \<Rightarrow> MemStorage \<Rightarrow> bool" where
  "scoresKept K st st' \<longleftrightarrow>
     participantsKeyed st' \<and> participantsFresh st' \<and> participantsNumeric st' \<and>
     participantId st \<le> participantId st' \<and>
     (\<forall>k p'. k < participantId st \<longrightarrow> getParticipant st' k = Some p' \<longrightarrow>
        (\<exists>p. getParticipant st k = Some p \<and> score_le (part_score p) (part_score p') \<and>
             (k \<notin> K \<longrightarrow> part_score p' = part_score p)))"

text \<open>
  What holds of the waiting \<^verbatim>\<open>createAnswer\<close> calls along such events: no two are for the
  same participant, their points are not negative, and the participant a call has read has
  the id the call asked for, a key below the counter, and the score that is stored under
  that key now, if the key is still in use.
\<close>

definition waitingCurrent ::
  "MemStorage \<Rightarrow> (InsertAnswer \<times> Participant option) list \<Rightarrow> bool" where
  "waitingCurrent st waiting \<longleftrightarrow>
     distinct (map (\<lambda>w. ians_participantId (fst w)) waiting) \<and>
     (\<forall>w \<in> set waiting. 0 \<le> ians_score (fst w) \<and>
        (\<forall>read. snd w = Some read \<longrightarrow>
           part_id read = Some (ians_participantId (fst w)) \<and>
           ians_participantId (fst w) < participantId st \<and>
           (\<forall>current. getParticipant st (ians_participantId (fst w)) = Some current \<longrightarrow>
              part_score current = part_score read)))"

section \<open>Properties of the rounding\<close>

lemma round_half_even_bounds: "\<lfloor>y\<rfloor> \<le> round_half_even y \<and> round_half_even y \<le> \<lfloor>y\<rfloor> + 1"
  by (simp add: round_half_even_def Let_def)

lemma round_half_even_of_int: "round_half_even (of_int n) = n"
  by (simp add: round_half_even_def Let_def)

lemma round_half_even_mono:
  assumes "y \<le> z"
  shows "round_half_even y \<le> round_half_even z"
proof (cases "\<lfloor>y\<rfloor> = \<lfloor>z\<rfloor>")
  case True
  from assms have "y - of_int \<lfloor>z\<rfloor> \<le> z - of_int \<lfloor>z\<rfloor>" by simp
  with True show ?thesis
    by (auto simp: round_half_even_def Let_def)
next
  case False
  with assms have "\<lfloor>y\<rfloor> < \<lfloor>z\<rfloor>"
    using floor_mono [of y z] by linarith
  then show ?thesis
    using round_half_even_bounds [of y] round_half_even_bounds [of z] by linarith
qed

lemma pow2_le_of_int: "(2::int) ^ k \<le> m \<Longrightarrow> (2::rat) ^ k \<le> of_int m"
  by (metis of_int_le_iff of_int_numeral of_int_power)

lemma of_int_le_pow2: "m \<le> (2::int) ^ k \<Longrightarrow> (of_int m::rat) \<le> 2 ^ k"
  by (metis of_int_le_iff of_int_numeral of_int_power)

lemma bitlen_pos: "1 \<le> n \<Longrightarrow> 1 \<le> bitlen n"
  using bitlen_nonneg [of n] bitlen_eq_zero_iff [of n] by linarith

lemma exponent_bounds:
  assumes "0 < x"
  shows "2 powi exponent x \<le> x \<and> x < 2 powi (exponent x + 1)"
proof (cases "1 \<le> x")
  case True
  define n where "n = \<lfloor>x\<rfloor>"
  have n: "1 \<le> n" using True by (simp add: n_def)
  then have b: "2 ^ nat (bitlen n - 1) \<le> n" "n + 1 \<le> 2 ^ nat (bitlen n)"
    using bitlen_bounds [of n] by auto
  have b1: "1 \<le> bitlen n" using n by (rule bitlen_pos)
  have e: "exponent x = bitlen n - 1" using True by (simp add: exponent_def n_def)
  have p: "(2::rat) powi exponent x = 2 ^ nat (bitlen n - 1)"
          "(2::rat) powi (exponent x + 1) = 2 ^ nat (bitlen n)"
    using b1 by (simp_all add: e power_int_def)
  have "(2::rat) ^ nat (bitlen n - 1) \<le> of_int n" using b(1) by (rule pow2_le_of_int)
  also have "\<dots> \<le> x" by (simp add: n_def)
  finally have lo: "2 powi exponent x \<le> x" by (simp only: p)
  have "x < of_int (n + 1)" unfolding n_def by linarith
  also have "\<dots> \<le> 2 ^ nat (bitlen n)" using b(2) by (rule of_int_le_pow2)
  finally have "x < 2 powi (exponent x + 1)" by (simp only: p)
  with lo show ?thesis by simp
next
  case False
  then have x1: "x < 1" by simp
  define m where "m = \<lceil>1 / x\<rceil> - 1"
  have "1 < 1 / x" using assms x1 by simp
  then have m: "1 \<le> m" unfolding m_def by (simp add: less_ceiling_iff)
  then have b: "2 ^ nat (bitlen m - 1) \<le> m" "m + 1 \<le> 2 ^ nat (bitlen m)"
    using bitlen_bounds [of m] by auto
  have b1: "1 \<le> bitlen m" using m by (rule bitlen_pos)
  have e: "exponent x = - bitlen m" using False by (simp add: exponent_def m_def)
  have p: "(2::rat) powi exponent x = 1 / 2 ^ nat (bitlen m)"
          "(2::rat) powi (exponent x + 1) = 1 / 2 ^ nat (bitlen m - 1)"
    using b1 by (simp_all add: e power_int_def field_simps)
  have "1 / x \<le> of_int (m + 1)" by (simp add: m_def)
  also have "\<dots> \<le> 2 ^ nat (bitlen m)" using b(2) by (rule of_int_le_pow2)
  finally have "1 / 2 ^ nat (bitlen m) \<le> x"
    using assms by (simp add: field_simps)
  then have lo: "2 powi exponent x \<le> x" by (simp only: p)
  have "(2::rat) ^ nat (bitlen m - 1) \<le> of_int m" using b(1) by (rule pow2_le_of_int)
  also have "of_int m < 1 / x" unfolding m_def by linarith
  finally have "x < 1 / 2 ^ nat (bitlen m - 1)"
    using assms by (simp add: field_simps)
  then have "x < 2 powi (exponent x + 1)" by (simp only: p)
  with lo show ?thesis by simp
qed

lemma exponent_mono:
  assumes "0 < x" "x \<le> y"
  shows "exponent x \<le> exponent y"
proof (rule ccontr)
  assume "\<not> exponent x \<le> exponent y"
  then have "exponent y + 1 \<le> exponent x" by simp
  then have "(2::rat) powi (exponent y + 1) \<le> 2 powi exponent x"
    by (intro power_int_increasing) simp_all
  with exponent_bounds [of x] exponent_bounds [of y] assms show False by simp
qed

lemma round_double_pos:
  "0 < x \<Longrightarrow>
     round_double x = of_int (round_half_even (x / 2 powi (exponent x - 52))) * 2 powi (exponent x - 52)"
  by (simp add: round_double_def Let_def)

lemma round_double_bounds:
  assumes "0 < x"
  shows "2 powi exponent x \<le> round_double x \<and> round_double x \<le> 2 powi (exponent x + 1)"
proof -
  define u :: rat where "u = 2 powi (exponent x - 52)"
  have u: "0 < u" by (simp add: u_def)
  have e0: "2 powi exponent x = 2 ^ 52 * u" and e1: "2 powi (exponent x + 1) = 2 ^ 53 * u"
    by (simp_all add: u_def power_int_diff power_int_add)
  have "2 ^ 52 * u \<le> x" "x < 2 ^ 53 * u"
    using exponent_bounds [OF assms, unfolded e0 e1] by simp_all
  then have "2 ^ 52 \<le> x / u" "x / u \<le> 2 ^ 53"
    using u by (simp_all add: field_simps)
  then have "round_half_even (of_int (2 ^ 52)) \<le> round_half_even (x / u)"
            "round_half_even (x / u) \<le> round_half_even (of_int (2 ^ 53))"
    by (simp_all add: round_half_even_mono)
  then have r: "2 ^ 52 \<le> round_half_even (x / u)" "round_half_even (x / u) \<le> 2 ^ 53"
    by (simp_all only: round_half_even_of_int)
  have "(2::rat) ^ 52 \<le> of_int (round_half_even (x / u))"
       "(of_int (round_half_even (x / u))::rat) \<le> 2 ^ 53"
    using r(1) pow2_le_of_int apply blast
    using r(2) of_int_le_pow2 by blast
  then have "2 ^ 52 * u \<le> of_int (round_half_even (x / u)) * u"
            "of_int (round_half_even (x / u)) * u \<le> 2 ^ 53 * u"
    using u by simp_all
  then show ?thesis
    using assms by (simp add: round_double_pos e0 e1 flip: u_def)
qed

lemma round_double_mono_pos:
  assumes "0 < x" "x \<le> y"
  shows "round_double x \<le> round_double y"
proof (cases "exponent x = exponent y")
  case True
  define u :: rat where "u = 2 powi (exponent y - 52)"
  have u: "0 < u" by (simp add: u_def)
  from assms u have "x / u \<le> y / u" by (simp add: divide_right_mono)
  then have "round_half_even (x / u) \<le> round_half_even (y / u)" by (rule round_half_even_mono)
  then have "(of_int (round_half_even (x / u))::rat) * u \<le> of_int (round_half_even (y / u)) * u"
    using u by simp
  with assms True show ?thesis by (simp add: round_double_pos flip: u_def)
next
  case False
  with exponent_mono [OF assms] have "exponent x + 1 \<le> exponent y" by simp
  then have "(2::rat) powi (exponent x + 1) \<le> 2 powi exponent y"
    by (intro power_int_increasing) simp_all
  with round_double_bounds [of x] round_double_bounds [of y] assms show ?thesis by simp
qed

lemma round_double_nonneg:
  assumes "0 \<le> x"
  shows "0 \<le> round_double x"
proof (cases "x = 0")
  case True
  then show ?thesis by (simp add: round_double_def)
next
  case False
  with assms have "0 < x" by simp
  from round_double_bounds [OF this] have "2 powi exponent x \<le> round_double x" by simp
  moreover have "(0::rat) < 2 powi exponent x" by simp
  ultimately show ?thesis by linarith
qed

lemma round_double_mono:
  assumes "0 \<le> x" "x \<le> y"
  shows "round_double x \<le> round_double y"
proof (cases "x = 0")
  case True
  with assms round_double_nonneg [of y] show ?thesis by (simp add: round_double_def)
next
  case False
  with assms show ?thesis by (simp add: round_double_mono_pos)
qed

lemma round_double_1: "round_double 1 = 1"
  by code_simp

lemma round_double_50: "round_double 50 = 50"
  by code_simp

lemma round_double_5000: "round_double 5000 = 5000"
  by code_simp

lemma round_double_le:
  assumes "0 \<le> x" "x \<le> c" "round_double c = c"
  shows "round_double x \<le> c"
  using round_double_mono [OF assms(1,2)] assms(3) by simp

subsection \<open>Sums of scores\<close>

text \<open>
  Rounding is odd, monotone and the identity on doubles, so the sum of two integer-valued
  numbers is integer-valued again, is exact up to \<open>2^53\<close>, and is at least the first summand
  when the second is not negative.
\<close>

lemma round_double_minus: "round_double (- x) = - round_double x"
  by (simp add: round_double_def Let_def sgn_minus)

lemma round_double_mono_all:
  assumes "x \<le> y"
  shows "round_double x \<le> round_double y"
proof -
  consider "0 \<le> x" | "x < 0" "0 \<le> y" | "y < 0" using assms by linarith
  then show ?thesis
  proof cases
    case 1
    then show ?thesis using assms by (rule round_double_mono)
  next
    case 2
    from 2(1) have "0 \<le> round_double (- x)" by (intro round_double_nonneg) simp
    then have "round_double x \<le> 0" by (simp add: round_double_minus)
    also from 2(2) have "0 \<le> round_double y" by (rule round_double_nonneg)
    finally show ?thesis .
  next
    case 3
    with assms have "round_double (- y) \<le> round_double (- x)"
      by (intro round_double_mono) simp_all
    then show ?thesis by (simp add: round_double_minus)
  qed
qed

lemma exponent_unique:
  assumes "0 < y" "2 powi k \<le> y" "y < 2 powi (k + 1)"
  shows "exponent y = k"
proof (rule antisym)
  show "exponent y \<le> k"
  proof (rule ccontr)
    assume "\<not> exponent y \<le> k"
    then have "k + 1 \<le> exponent y" by simp
    then have "(2::rat) powi (k + 1) \<le> 2 powi exponent y"
      by (intro power_int_increasing) simp_all
    with exponent_bounds [OF assms(1)] assms(3) show False by simp
  qed
  show "k \<le> exponent y"
  proof (rule ccontr)
    assume "\<not> k \<le> exponent y"
    then have "exponent y + 1 \<le> k" by simp
    then have "(2::rat) powi (exponent y + 1) \<le> 2 powi k"
      by (intro power_int_increasing) simp_all
    with exponent_bounds [OF assms(1)] assms(2) show False by simp
  qed
qed

text \<open>A positive value that is a whole number of units of its own exponent is a double.\<close>

lemma round_double_exact:
  assumes "0 < x" "x = of_int m * 2 powi (exponent x - 52)"
  shows "round_double x = x"
proof -
  have "x / 2 powi (exponent x - 52) = of_int m"
    by (subst assms(2)) simp
  then show ?thesis
    using assms by (simp add: round_double_pos round_half_even_of_int)
qed

lemma round_double_idem_pos:
  assumes "0 < x"
  shows "round_double (round_double x) = round_double x"
proof -
  define e where "e = exponent x"
  define u :: rat where "u = 2 powi (e - 52)"
  define m where "m = round_half_even (x / u)"
  have u: "0 < u" by (simp add: u_def)
  have y: "round_double x = of_int m * u"
    using assms by (simp add: round_double_pos m_def u_def e_def)
  have e0: "2 powi e = 2 ^ 52 * u" and e1: "2 powi (e + 1) = 2 ^ 53 * u"
    by (simp_all add: u_def power_int_diff power_int_add)
  from round_double_bounds [OF assms]
  have b: "2 ^ 52 * u \<le> of_int m * u" "of_int m * u \<le> 2 ^ 53 * u"
    by (simp_all add: y e0 e1 flip: e_def)
  have "0 < 2 ^ 52 * u" using u by simp
  with b(1) have pos: "0 < round_double x" by (simp only: y)
  show ?thesis
  proof (cases "of_int m * u < 2 ^ 53 * u")
    case True
    with b(1) have "exponent (round_double x) = e"
      using pos by (intro exponent_unique) (simp_all add: y e0 e1)
    then show ?thesis
      using pos by (intro round_double_exact [where m = m]) (simp_all add: y u_def)
  next
    case False
    with b(2) have eq: "of_int m * u = 2 ^ 53 * u" by simp
    have e2': "(2::rat) powi (e + 1 + 1) = 2 ^ 54 * u"
      by (simp add: u_def power_int_diff power_int_add)
    have lo: "2 powi (e + 1) \<le> round_double x"
      by (simp only: y eq e1 order_refl)
    have "(2::rat) ^ 53 * u < 2 ^ 54 * u" using u by simp
    then have hi: "round_double x < 2 powi (e + 1 + 1)"
      by (simp only: y eq e2')
    have "exponent (round_double x) = e + 1"
      using pos lo hi by (rule exponent_unique)
    moreover have "(2::rat) powi (e + 1 - 52) = 2 * u"
      by (simp add: u_def power_int_diff power_int_add)
    ultimately show ?thesis
      using pos by (intro round_double_exact [where m = "2 ^ 52"]) (simp_all add: y eq)
  qed
qed

lemma round_double_idem: "round_double (round_double x) = round_double x"
proof -
  consider "x = 0" | "0 < x" | "x < 0" by linarith
  then show ?thesis
  proof cases
    case 1
    then show ?thesis by (simp add: round_double_def)
  next
    case 2
    then show ?thesis by (rule round_double_idem_pos)
  next
    case 3
    then have "round_double (round_double (- x)) = round_double (- x)"
      by (intro round_double_idem_pos) simp
    then show ?thesis by (simp add: round_double_minus)
  qed
qed

lemma exponent_of_int_nonneg: "0 < n \<Longrightarrow> 0 \<le> exponent (of_int n)"
  using bitlen_pos [of n] by (simp add: exponent_def)

lemma round_double_of_int_small:
  assumes "0 < n" "exponent (of_int n) \<le> 52"
  shows "round_double (of_int n) = of_int n"
proof -
  define k where "k = nat (52 - exponent (of_int n))"
  have u: "(2::rat) powi (exponent (of_int n) - 52) = 1 / 2 ^ k"
    using assms(2) by (simp add: power_int_def k_def field_simps)
  have "(of_int n::rat) = of_int (n * 2 ^ k) * 2 powi (exponent (of_int n) - 52)"
    by (simp add: u)
  with assms(1) show ?thesis
    by (intro round_double_exact [where m = "n * 2 ^ k"]) simp_all
qed

lemma round_double_of_int_integer_pos:
  assumes "0 < n"
  shows "\<exists>k. round_double (of_int n) = of_int k"
proof (cases "exponent (of_int n) \<le> 52")
  case True
  with assms show ?thesis by (auto simp: round_double_of_int_small)
next
  case False
  define j where "j = nat (exponent (of_int n) - 52)"
  have "(2::rat) powi (exponent (of_int n) - 52) = of_int (2 ^ j)"
    using False by (simp add: power_int_def j_def)
  then have "round_double (of_int n)
      = of_int (round_half_even (of_int n / 2 powi (exponent (of_int n) - 52)) * 2 ^ j)"
    using assms by (simp add: round_double_pos)
  then show ?thesis by blast
qed

lemma round_double_of_int_integer: "\<exists>k. round_double (of_int n) = of_int k"
proof -
  consider "n = 0" | "0 < n" | "n < 0" by linarith
  then show ?thesis
  proof cases
    case 1
    then show ?thesis by (simp add: round_double_def)
  next
    case 2
    then show ?thesis by (rule round_double_of_int_integer_pos)
  next
    case 3
    then obtain k where "round_double (of_int (- n)) = of_int k"
      using round_double_of_int_integer_pos [of "- n"] by auto
    then have "round_double (of_int n) = of_int (- k)"
      using round_double_minus [of "of_int n"] by simp
    then show ?thesis by blast
  qed
qed

lemma of_int_js_add: "of_int (js_add a b) = round_double (of_int (a + b))"
proof -
  obtain k where "round_double (of_int (a + b)) = of_int k"
    using round_double_of_int_integer by blast
  then show ?thesis by (simp add: js_add_def)
qed

lemma representable_js_add: "representable (js_add a b)"
  by (simp add: representable_def of_int_js_add round_double_idem)

lemma js_add_increases:
  assumes "representable s" "0 \<le> a"
  shows "s \<le> js_add s a"
proof -
  from assms(2) have "round_double (of_int s) \<le> round_double (of_int (s + a))"
    by (intro round_double_mono_all) simp
  with assms(1) have "(of_int s::rat) \<le> of_int (js_add s a)"
    by (simp add: representable_def of_int_js_add)
  then show ?thesis by (simp only: of_int_le_iff)
qed

lemma round_double_2_53: "round_double 9007199254740992 = 9007199254740992"
  by code_simp

lemma representable_small:
  assumes "\<bar>n\<bar> \<le> 2 ^ 53"
  shows "representable n"
proof -
  have pos: "round_double (of_int m) = of_int m" if "0 < m" "m \<le> 2 ^ 53" for m :: int
  proof (cases "m = 2 ^ 53")
    case True
    then show ?thesis using round_double_2_53 by simp
  next
    case False
    with that have "m < 2 ^ 53" by simp
    then have "(of_int m::rat) < 2 powi (52 + 1)"
      by (simp add: of_int_less_iff [of m "2 ^ 53", where ?'a = rat, simplified])
    moreover from that(1) have "2 powi exponent (of_int m) \<le> (of_int m::rat)"
      using exponent_bounds [of "of_int m"] by simp
    ultimately have "(2::rat) powi exponent (of_int m) < 2 powi (52 + 1)" by linarith
    have "exponent (of_int m) < 52 + 1"
    proof (rule ccontr)
      assume "\<not> exponent (of_int m) < 52 + 1"
      then have "(2::rat) powi (52 + 1) \<le> 2 powi exponent (of_int m)"
        by (intro power_int_increasing) simp_all
      with \<open>(2::rat) powi exponent (of_int m) < 2 powi (52 + 1)\<close> show False by simp
    qed
    with that(1) show ?thesis by (intro round_double_of_int_small) simp_all
  qed
  consider "n = 0" | "0 < n" | "n < 0" by linarith
  then show ?thesis
  proof cases
    case 1
    then show ?thesis by (simp add: representable_def round_double_def)
  next
    case 2
    with assms pos [of n] show ?thesis by (simp add: representable_def)
  next
    case 3
    with assms pos [of "- n"] round_double_minus [of "of_int n"] show ?thesis
      by (simp add: representable_def)
  qed
qed



section \<open>Properties of the scoring engine\<close>

text \<open>
  The four intermediate values of the decaying branch, each between its bounds, for a
  response time in [5000, 10000).
\<close>

lemma decay_bounds:
  assumes "5000 \<le> t" "t < 10000"
  shows "0 \<le> round_double (50 * round_double (1 - round_double (round_double (t - 5000) / 5000)))"
    and "round_double (50 * round_double (1 - round_double (round_double (t - 5000) / 5000))) \<le> 50"
proof -
  define a where "a = round_double (t - 5000)"
  define q where "q = round_double (a / 5000)"
  define r where "r = round_double (1 - q)"
  have a: "0 \<le> a" "a \<le> 5000"
    using assms by (simp_all add: a_def round_double_nonneg round_double_le round_double_5000)
  then have q: "0 \<le> q" "q \<le> 1"
    by (simp_all add: q_def round_double_nonneg round_double_le round_double_1)
  then have r: "0 \<le> r" "r \<le> 1"
    by (simp_all add: r_def round_double_nonneg round_double_le round_double_1)
  then have "0 \<le> round_double (50 * r)" "round_double (50 * r) \<le> 50"
    by (simp_all add: round_double_nonneg round_double_le round_double_50)
  then show "0 \<le> round_double (50 * round_double (1 - round_double (round_double (t - 5000) / 5000)))"
    and "round_double (50 * round_double (1 - round_double (round_double (t - 5000) / 5000))) \<le> 50"
    by (simp_all add: a_def q_def r_def)
qed

lemma decay_antimono:
  assumes "5000 \<le> s" "s \<le> t" "t < 10000"
  shows "round_double (50 * round_double (1 - round_double (round_double (t - 5000) / 5000)))
       \<le> round_double (50 * round_double (1 - round_double (round_double (s - 5000) / 5000)))"
proof -
  define a where "a u = round_double (u - 5000)" for u
  define q where "q u = round_double (a u / 5000)" for u
  define r where "r u = round_double (1 - q u)" for u
  have "a s \<le> a t" "0 \<le> a s" "a t \<le> 5000"
    using assms by (simp_all add: a_def round_double_mono round_double_nonneg round_double_le round_double_5000)
  then have "q s \<le> q t" "q t \<le> 1"
    by (simp_all add: q_def round_double_mono round_double_le round_double_5000 round_double_1)
  then have "r t \<le> r s" "0 \<le> r t"
    by (simp_all add: r_def round_double_mono round_double_nonneg)
  then have "round_double (50 * r t) \<le> round_double (50 * r s)"
    by (simp add: round_double_mono)
  then show ?thesis by (simp add: a_def q_def r_def)
qed

lemma calculateScore_Finite_range:
  "100 \<le> calculateScore True (Finite t) \<and> calculateScore True (Finite t) \<le> 150"
  using decay_bounds [of t] by (simp add: le_floor_iff floor_le_iff) linarith

lemma calculateScore_Finite_antimono:
  assumes "s \<le> t"
  shows "calculateScore True (Finite t) \<le> calculateScore True (Finite s)"
proof -
  consider "s < 5000" | "10000 \<le> t" | "5000 \<le> s" "t < 10000" by linarith
  then show ?thesis
  proof cases
    case 1
    with calculateScore_Finite_range [of t] show ?thesis by simp
  next
    case 2
    with calculateScore_Finite_range [of s] show ?thesis by simp
  next
    case 3
    with assms decay_antimono [of s t] show ?thesis by (simp add: floor_mono)
  qed
qed

text \<open>
  C8. An incorrect answer scores zero, whatever the response time: a finite time, an
  infinite one, or NaN.
\<close>

theorem calculateScore_incorrect: "calculateScore False responseTimeMs = 0"
  by simp

text \<open>
  C1 as the spec states it has calculateScore(true, 5000) = 100. The source tests
  \<^verbatim>\<open>responseTimeMs < 5000\<close> first and then adds the decaying bonus, which at 5000 ms is still
  \<open>floor (50 * (1 - 0 / 5000)) = 50\<close>: the score at 5000 ms is 150, not 100.
\<close>

theorem calculateScore_5000_counterexample: "calculateScore True (Finite 5000) \<noteq> 100"
  by code_simp

text \<open>
  C1, amended. The sample points of the scoring function: calculateScore(true, 4999) = 150,
  calculateScore(true, 5000) = 150, calculateScore(true, 7500) = 125 and
  calculateScore(true, 10000) = 100.
\<close>

theorem calculateScore_sample_points:
  "calculateScore True (Finite 4999) = 150 \<and> calculateScore True (Finite 5000) = 150 \<and>
   calculateScore True (Finite 7500) = 125 \<and> calculateScore True (Finite 10000) = 100"
  by code_simp

text \<open>
  C4. A negative response time gains nothing over a zero response time: for every
  responseTimeMs < 0 (minus infinity included), calculateScore(true, responseTimeMs) equals
  calculateScore(true, 0). The source does not clamp; both sides take the flat-bonus branch.
\<close>

theorem calculateScore_negative:
  "js_lt responseTimeMs (Finite 0) \<Longrightarrow>
     calculateScore True responseTimeMs = calculateScore True (Finite 0)"
  by (cases responseTimeMs) simp_all

theorem calculateScore_negative_witness:
  "js_lt (Finite (- 250)) (Finite 0) \<and>
   calculateScore True (Finite (- 250)) = calculateScore True (Finite 0)"
  using calculateScore_negative [of "Finite (- 250)"] by simp

text \<open>
  C9. For every input calculateScore returns an integer between 0 and 150; a correct answer
  scores at least 100; and for correct answers the score is non-increasing in the response
  time: whenever s <= t holds in JavaScript (so also for t = Infinity, and in particular for
  all non-negative times), the slower answer t never scores more than the faster answer s.
\<close>

theorem calculateScore_range_antimono:
  "0 \<le> calculateScore isCorrect responseTimeMs \<and>
   calculateScore isCorrect responseTimeMs \<le> 150 \<and>
   (isCorrect \<longrightarrow> 100 \<le> calculateScore isCorrect responseTimeMs) \<and>
   (js_le s t \<longrightarrow> calculateScore True t \<le> calculateScore True s)"
proof -
  have range: "100 \<le> calculateScore True x \<and> calculateScore True x \<le> 150" for x
    using calculateScore_Finite_range by (cases x) simp_all
  have "0 \<le> calculateScore isCorrect responseTimeMs \<and>
        calculateScore isCorrect responseTimeMs \<le> 150 \<and>
        (isCorrect \<longrightarrow> 100 \<le> calculateScore isCorrect responseTimeMs)"
    using range [of responseTimeMs] by (cases isCorrect) simp_all
  moreover have "calculateScore True t \<le> calculateScore True s" if "js_le s t"
  proof (cases s)
    case (Finite x)
    with that show ?thesis
      using calculateScore_Finite_antimono range [of s]
      by (cases t) (simp_all del: calculateScore.simps, simp_all)
  next
    case PosInfinity
    with that show ?thesis by (cases t) simp_all
  next
    case NegInfinity
    with range [of t] show ?thesis by simp
  next
    case NaN
    with that show ?thesis by simp
  qed
  ultimately show ?thesis by blast
qed

theorem calculateScore_range_antimono_witness:
  "js_le (Finite 6000) (Finite 9500) \<and>
   calculateScore True (Finite 9500) \<le> calculateScore True (Finite 6000) \<and>
   calculateScore True (Finite 9500) = 104 \<and> calculateScore True (Finite 6000) = 140 \<and>
   100 \<le> calculateScore True (Finite 9500)"
proof -
  have "calculateScore True (Finite 9500) = 104" "calculateScore True (Finite 6000) = 140"
    by code_simp+
  then show ?thesis
    using calculateScore_range_antimono [of True "Finite 9500" "Finite 6000" "Finite 9500"]
    by simp
qed

section \<open>Properties of the record store\<close>

subsection \<open>Association lists and patches\<close>

lemma update_fresh: "k \<notin> fst ` set al \<Longrightarrow> AList.update k v al = al @ [(k, v)]"
  by (induction al) auto

lemma fresh_notin: "list_all (\<lambda>k. k < (c::int)) (map fst al) \<Longrightarrow> c \<notin> fst ` set al"
  by (auto simp: list_all_iff)

lemma spread_scorePatch:
  "spreadParticipant p (scorePatch s) = p\<lparr>part_score := s\<rparr>"
  by (simp add: spreadParticipant_def scorePatch_def orElse_def)

lemma set_update_subset: "set (AList.update k v al) \<subseteq> insert (k, v) (set al)"
  by (induction al) auto

lemma set_delete_subset: "set (AList.delete k al) \<subseteq> set al"
  by (auto simp: AList.delete_eq)



subsection \<open>Updating a record that is not stored\<close>

text \<open>
  C10. Updating a record that does not exist changes nothing: for every id with no stored
  quiz, \<^verbatim>\<open>updateQuiz\<close> returns \<^verbatim>\<open>undefined\<close> and leaves the whole store as it was, and for every
  id with no stored participant \<^verbatim>\<open>updateParticipant\<close> does the same.
\<close>

theorem update_absent_unchanged:
  "(getQuiz st i = None \<longrightarrow> updateQuiz st i quiz = (None, st)) \<and>
   (getParticipant st j = None \<longrightarrow> updateParticipant st j participant = (None, st))"
  by (simp add: updateQuiz_def getQuiz_def updateParticipant_def getParticipant_def)

text \<open>
  The store the constructor builds holds quiz 1 only and no participant: an update of quiz 7
  and an update of participant 1 both return nothing and leave it unchanged.
\<close>

theorem update_absent_unchanged_witness:
  "getQuiz (newMemStorage 0) 7 = None \<and>
   updateQuiz (newMemStorage 0) 7 \<lparr>pquiz_id = None, pquiz_adminId = None, pquiz_title = None,
      pquiz_timePerQuestion = None, pquiz_status = Some ''completed'', pquiz_code = None,
      pquiz_createdAt = None\<rparr> = (None, newMemStorage 0) \<and>
   getParticipant (newMemStorage 0) 1 = None \<and>
   updateParticipant (newMemStorage 0) 1 (scorePatch (Points 150)) = (None, newMemStorage 0)"
proof -
  have "getQuiz (newMemStorage 0) 7 = None" "getParticipant (newMemStorage 0) 1 = None"
    by (simp_all add: getQuiz_def getParticipant_def newMemStorage_def emptyStorage_def
        createAdmin_def createQuiz_def createQuestion_def Let_def)
  then show ?thesis
    using update_absent_unchanged [of "newMemStorage 0" 7 _ 1 "scorePatch (Points 150)"] by simp
qed


subsection \<open>The two steps of storing an answer\<close>

lemma createAnswerStart_fst:
  "fst (fst (createAnswerStart st answer)) =
     \<lparr>ans_id = answerId st, ans_participantId = ians_participantId answer,
      ans_questionId = ians_questionId answer, ans_selectedOption = ians_selectedOption answer,
      ans_isCorrect = ians_isCorrect answer, ans_responseTime = ians_responseTime answer,
      ans_score = ians_score answer\<rparr> \<and>
   snd (fst (createAnswerStart st answer)) = getParticipant st (ians_participantId answer)"
  by (simp add: createAnswerStart_def Let_def getParticipant_def)

lemma createAnswerStart_snd:
  "snd (createAnswerStart st answer) =
     st\<lparr>answerId := answerId st + 1,
        answers := AList.update (answerId st) (fst (fst (createAnswerStart st answer))) (answers st)\<rparr>"
  by (simp add: createAnswerStart_def Let_def)

lemma createAnswerFinish_answers:
  "answers (createAnswerFinish st answer read) = answers st \<and>
   answerId (createAnswerFinish st answer read) = answerId st \<and>
   participantId (createAnswerFinish st answer read) = participantId st"
  by (simp add: createAnswerFinish_def updateParticipant_def Let_def split: option.splits)

lemma createAnswer_steps:
  "createAnswer st answer =
     (fst (fst (createAnswerStart st answer)),
      createAnswerFinish (snd (createAnswerStart st answer)) answer
        (snd (fst (createAnswerStart st answer))))"
  by (simp add: createAnswer_def Let_def split_beta)

lemma createAnswer_fst:
  "fst (createAnswer st answer) =
     \<lparr>ans_id = answerId st, ans_participantId = ians_participantId answer,
      ans_questionId = ians_questionId answer, ans_selectedOption = ians_selectedOption answer,
      ans_isCorrect = ians_isCorrect answer, ans_responseTime = ians_responseTime answer,
      ans_score = ians_score answer\<rparr>"
  by (simp add: createAnswer_steps createAnswerStart_fst)

lemma createAnswer_answers:
  "answers (snd (createAnswer st answer)) =
     AList.update (answerId st) (fst (createAnswer st answer)) (answers st) \<and>
   answerId (snd (createAnswer st answer)) = answerId st + 1"
  by (simp add: createAnswer_steps createAnswerFinish_answers createAnswerStart_snd)

lemma createAnswer_appends:
  assumes "answersFresh st"
  shows "answers (snd (createAnswer st answer)) =
           answers st @ [(answerId st, fst (createAnswer st answer))]"
    and "answersFresh (snd (createAnswer st answer))"
proof -
  from assms have "answerId st \<notin> fst ` set (answers st)"
    unfolding answersFresh_def by (rule fresh_notin)
  then show a: "answers (snd (createAnswer st answer)) =
           answers st @ [(answerId st, fst (createAnswer st answer))]"
    by (simp add: createAnswer_answers update_fresh)
  from assms show "answersFresh (snd (createAnswer st answer))"
    unfolding answersFresh_def a
    by (auto simp: createAnswer_answers list_all_iff)
qed







subsection \<open>Answers per participant and question\<close>

text \<open>
  C2 as stated asks that a second submission for a question the participant already
  answered is rejected or ignored. \<^verbatim>\<open>createAnswer\<close> looks up no earlier answer: Alice's
  second answer to question 1 is stored under id 2 beside the first.
\<close>

theorem createAnswer_duplicate_counterexample:
  "map (\<lambda>a. (ans_id a, ans_participantId a, ans_questionId a))
     (getAnswersByParticipant
        (fold perform
           [CreateParticipant 10 \<lparr>ipart_quizId = 1, ipart_alias = ''Alice'', ipart_score = Some 0\<rparr>,
            CreateAnswer \<lparr>ians_participantId = 1, ians_questionId = 1, ians_selectedOption = 0,
              ians_isCorrect = True, ians_responseTime = 3000, ians_score = 150\<rparr>,
            CreateAnswer \<lparr>ians_participantId = 1, ians_questionId = 1, ians_selectedOption = 0,
              ians_isCorrect = True, ians_responseTime = 3000, ians_score = 150\<rparr>]
           (newMemStorage 0)) 1)
   = [(1, 1, 1), (2, 1, 1)]"
  by code_simp

text \<open>
  C2, amended. After any sequence of \<^verbatim>\<open>createAnswer\<close> calls on a store whose answer counter
  lies above every stored answer id, the store holds one Answer per call: the answers stored
  for a pair (participantId, questionId) are those stored before plus one for every
  submission of that pair, a repeated submission included.
\<close>

theorem createAnswer_keeps_every_submission:
  assumes "answersFresh st"
  shows "length (filter (\<lambda>a. ans_questionId a = q)
            (getAnswersByParticipant (fold (\<lambda>a s. snd (createAnswer s a)) submissions st) p))
       = length (filter (\<lambda>a. ans_questionId a = q) (getAnswersByParticipant st p))
       + length (filter (\<lambda>a. ians_participantId a = p \<and> ians_questionId a = q) submissions)"
  using assms
proof (induction submissions arbitrary: st)
  case Nil
  then show ?case by simp
next
  case (Cons a submissions)
  from Cons.prems have "answersFresh (snd (createAnswer st a))"
    by (rule createAnswer_appends)
  from Cons.IH [OF this] createAnswer_appends(1) [OF Cons.prems, of a]
  show ?case
    by (simp add: getAnswersByParticipant_def createAnswer_fst)
qed

text \<open>
  Two submissions for participant 1 and question 1 on the store the constructor builds
  leave two answers for that pair.
\<close>

theorem createAnswer_keeps_every_submission_witness:
  "answersFresh (newMemStorage 0) \<and>
   length (filter (\<lambda>a. ans_questionId a = 1)
     (getAnswersByParticipant
        (fold (\<lambda>a s. snd (createAnswer s a))
           [\<lparr>ians_participantId = 1, ians_questionId = 1, ians_selectedOption = 0,
              ians_isCorrect = True, ians_responseTime = 3000, ians_score = 150\<rparr>,
            \<lparr>ians_participantId = 1, ians_questionId = 1, ians_selectedOption = 1,
              ians_isCorrect = False, ians_responseTime = 4000, ians_score = 0\<rparr>]
           (newMemStorage 0)) 1)) = 2"
proof -
  have fresh: "answersFresh (newMemStorage 0)"
    by code_simp
  have none: "getAnswersByParticipant (newMemStorage 0) 1 = []"
    by code_simp
  from createAnswer_keeps_every_submission [OF fresh, where q = 1 and p = 1 and submissions =
      "[\<lparr>ians_participantId = 1, ians_questionId = 1, ians_selectedOption = 0,
              ians_isCorrect = True, ians_responseTime = 3000, ians_score = 150\<rparr>,
            \<lparr>ians_participantId = 1, ians_questionId = 1, ians_selectedOption = 1,
              ians_isCorrect = False, ians_responseTime = 4000, ians_score = 0\<rparr>]"]
  show ?thesis
    by (simp add: none fresh)
qed


subsection \<open>The leaderboard\<close>




















subsection \<open>Scores along runs of events\<close>

lemma isNumber_le: "isNumber s \<Longrightarrow> score_le s s"
  by (cases s) simp_all

lemma score_le_trans: "score_le a b \<Longrightarrow> score_le b c \<Longrightarrow> score_le a c"
  by (cases a; cases b; cases c) simp_all

lemma stored_keyed:
  assumes "participantsKeyed st" "getParticipant st k = Some p"
  shows "part_id p = Some k"
proof -
  from assms(2) have "(k, p) \<in> set (participants st)"
    unfolding getParticipant_def by (rule map_of_SomeD)
  with assms(1) show ?thesis
    by (auto simp: participantsKeyed_def list_all_iff)
qed

lemma stored_fresh:
  assumes "participantsFresh st" "getParticipant st k = Some p"
  shows "k < participantId st"
proof -
  from assms(2) have "(k, p) \<in> set (participants st)"
    unfolding getParticipant_def by (rule map_of_SomeD)
  with assms(1) show ?thesis
    by (force simp: participantsFresh_def list_all_iff)
qed

lemma stored_numeric:
  assumes "participantsNumeric st" "getParticipant st k = Some p"
  shows "isNumber (part_score p)"
proof -
  from assms(2) have "(k, p) \<in> set (participants st)"
    unfolding getParticipant_def by (rule map_of_SomeD)
  with assms(1) show ?thesis
    by (auto simp: participantsNumeric_def list_all_iff)
qed

lemma scoresKept_same:
  assumes "participantsKeyed st" "participantsFresh st" "participantsNumeric st"
    and "participants st' = participants st" "participantId st' = participantId st"
  shows "scoresKept K st st'"
proof -
  have "score_le (part_score p) (part_score p)" if "getParticipant st k = Some p" for k p
  proof -
    from that have "(k, p) \<in> set (participants st)"
      unfolding getParticipant_def by (rule map_of_SomeD)
    with assms(3) have "isNumber (part_score p)"
      by (auto simp: participantsNumeric_def list_all_iff)
    then show ?thesis by (rule isNumber_le)
  qed
  with assms show ?thesis
    by (simp add: scoresKept_def participantsKeyed_def participantsFresh_def
        participantsNumeric_def getParticipant_def)
qed

lemma scoresKept_cong:
  assumes "participants st0 = participants st" "participantId st0 = participantId st"
  shows "scoresKept K st0 st' = scoresKept K st st'"
  using assms by (simp add: scoresKept_def getParticipant_def)

lemma scoresKept_sub:
  assumes "participantsKeyed st" "participantsFresh st" "participantsNumeric st"
    and "set (participants st') \<subseteq> set (participants st)"
    and "\<And>k. map_of (participants st') k = None \<or> map_of (participants st') k = map_of (participants st) k"
    and "participantId st' = participantId st"
  shows "scoresKept K st st'"
proof -
  have "participantsKeyed st'" "participantsFresh st'" "participantsNumeric st'"
    using assms(1,2,3,4,6)
    by (auto simp: participantsKeyed_def participantsFresh_def participantsNumeric_def list_all_iff)
  moreover have "\<exists>p. getParticipant st k = Some p \<and> score_le (part_score p) (part_score p') \<and>
      (k \<notin> K \<longrightarrow> part_score p' = part_score p)"
    if "getParticipant st' k = Some p'" for k p'
  proof -
    from that have m: "map_of (participants st') k = Some p'" by (simp add: getParticipant_def)
    with assms(5) [of k] have m': "map_of (participants st) k = Some p'" by (elim disjE) simp_all
    then have "(k, p') \<in> set (participants st)" by (rule map_of_SomeD)
    with assms(3) have "isNumber (part_score p')"
      by (auto simp: participantsNumeric_def list_all_iff)
    then have "score_le (part_score p') (part_score p')" by (rule isNumber_le)
    with m' show ?thesis by (simp add: getParticipant_def)
  qed
  ultimately show ?thesis
    by (simp add: scoresKept_def assms(6))
qed

lemma scoresKept_update:
  assumes "participantsKeyed st" "participantsFresh st" "participantsNumeric st"
    and "map_of (participants st) i = Some p" "part_id q = part_id p"
    and "score_le (part_score p) (part_score q)" "isNumber (part_score q)"
    and "i \<notin> K \<Longrightarrow> part_score q = part_score p"
    and "participants st' = AList.update i q (participants st)"
    and "participantId st' = participantId st"
  shows "scoresKept K st st'"
proof -
  from assms(4) have mem: "(i, p) \<in> set (participants st)" by (rule map_of_SomeD)
  with assms(1) have "part_id p = Some i"
    by (auto simp: participantsKeyed_def list_all_iff)
  with assms(1,5) have "participantsKeyed st'"
    unfolding participantsKeyed_def assms(9) list_all_iff
    using set_update_subset [of i q "participants st"] by auto
  moreover from assms(3,7) have "participantsNumeric st'"
    unfolding participantsNumeric_def assms(9) list_all_iff
    using set_update_subset [of i q "participants st"] by auto
  moreover from mem have "i \<in> fst ` set (participants st)" by force
  then have "map fst (participants st') = map fst (participants st)"
    by (simp add: assms(9) update_keys)
  with assms(2) have "participantsFresh st'"
    by (simp add: participantsFresh_def assms(10))
  moreover have "\<exists>p0. getParticipant st k = Some p0 \<and> score_le (part_score p0) (part_score p') \<and>
      (k \<notin> K \<longrightarrow> part_score p' = part_score p0)"
    if "getParticipant st' k = Some p'" for k p'
  proof (cases "k = i")
    case True
    with that have "p' = q" by (simp add: getParticipant_def assms(9) update_conv')
    with True assms(4,6,8) show ?thesis by (auto simp: getParticipant_def)
  next
    case False
    with that have m: "map_of (participants st) k = Some p'"
      by (simp add: getParticipant_def assms(9) update_conv')
    then have "(k, p') \<in> set (participants st)" by (rule map_of_SomeD)
    with assms(3) have "isNumber (part_score p')"
      by (auto simp: participantsNumeric_def list_all_iff)
    then have "score_le (part_score p') (part_score p')" by (rule isNumber_le)
    with m show ?thesis by (simp add: getParticipant_def)
  qed
  ultimately show ?thesis
    by (simp add: scoresKept_def assms(10))
qed

lemma deleteAnswers_participants:
  "participants (deleteAnswers as st) = participants st \<and>
   participantId (deleteAnswers as st) = participantId st"
  unfolding deleteAnswers_def by (induction as arbitrary: st) simp_all

lemma deleteQuestion_participants:
  "participants (snd (deleteQuestion st i)) = participants st \<and>
   participantId (snd (deleteQuestion st i)) = participantId st"
  by (simp add: deleteQuestion_def Let_def deleteAnswers_participants)

lemma fold_deleteQuestion:
  "participants (fold (\<lambda>question s. snd (deleteQuestion s (qst_id question))) qs st)
     = participants st \<and>
   participantId (fold (\<lambda>question s. snd (deleteQuestion s (qst_id question))) qs st)
     = participantId st"
  by (induction qs arbitrary: st) (simp_all add: deleteQuestion_participants)

lemma deleteQuizParticipant_sub:
  "set (participants (deleteQuizParticipant participant st)) \<subseteq> set (participants st) \<and>
   (map_of (participants (deleteQuizParticipant participant st)) k = None \<or>
    map_of (participants (deleteQuizParticipant participant st)) k = map_of (participants st) k) \<and>
   participantId (deleteQuizParticipant participant st) = participantId st"
  using set_delete_subset [of _ "participants st"]
  by (auto simp: deleteQuizParticipant_def Let_def deleteAnswers_participants delete_conv'
      split: option.splits)

lemma fold_deleteQuizParticipant_sub:
  "set (participants (fold deleteQuizParticipant ps st)) \<subseteq> set (participants st) \<and>
   (map_of (participants (fold deleteQuizParticipant ps st)) k = None \<or>
    map_of (participants (fold deleteQuizParticipant ps st)) k = map_of (participants st) k) \<and>
   participantId (fold deleteQuizParticipant ps st) = participantId st"
proof (induction ps arbitrary: st)
  case Nil
  then show ?case by simp
next
  case (Cons participant ps)
  from Cons.IH [of "deleteQuizParticipant participant st"]
    deleteQuizParticipant_sub [of participant st k]
  show ?case by (simp del: map_of_eq_None_iff) (metis subset_trans)
qed

lemma deleteQuiz_sub:
  "set (participants (snd (deleteQuiz st i))) \<subseteq> set (participants st) \<and>
   (map_of (participants (snd (deleteQuiz st i))) k = None \<or>
    map_of (participants (snd (deleteQuiz st i))) k = map_of (participants st) k) \<and>
   participantId (snd (deleteQuiz st i)) = participantId st"
  using fold_deleteQuizParticipant_sub
    [of "getParticipantsByQuiz
           (fold (\<lambda>question s. snd (deleteQuestion s (qst_id question))) (getQuestionsByQuiz st i) st) i"
        "fold (\<lambda>question s. snd (deleteQuestion s (qst_id question))) (getQuestionsByQuiz st i) st" k]
  by (simp add: deleteQuiz_def Let_def fold_deleteQuestion del: map_of_eq_None_iff)

lemma createAnswerStart_participants:
  "participants (snd (createAnswerStart st answer)) = participants st \<and>
   participantId (snd (createAnswerStart st answer)) = participantId st"
  by (simp add: createAnswerStart_snd)

text \<open>
  The second step of a \<^verbatim>\<open>createAnswer\<close> call whose points are not negative raises no score
  but the one of its participant, provided the score it has read is still the one stored.
\<close>

lemma createAnswerFinish_scoresKept:
  assumes "participantsKeyed st" "participantsFresh st" "participantsNumeric st"
    and "0 \<le> ians_score answer"
    and "\<And>snap. read = Some snap \<Longrightarrow>
           part_id snap = Some (ians_participantId answer) \<and>
           (\<forall>current. getParticipant st (ians_participantId answer) = Some current \<longrightarrow>
              part_score current = part_score snap)"
  shows "scoresKept {ians_participantId answer} st (createAnswerFinish st answer read)"
proof (cases read)
  case None
  with assms(1-3) show ?thesis
    by (intro scoresKept_same) (simp_all add: createAnswerFinish_def)
next
  case (Some snap)
  with assms(5) have i: "part_id snap = Some (ians_participantId answer)"
    and c: "\<And>current. getParticipant st (ians_participantId answer) = Some current \<Longrightarrow>
              part_score current = part_score snap"
    by simp_all
  show ?thesis
  proof (cases "map_of (participants st) (ians_participantId answer)")
    case None
    with Some i assms(1-3) show ?thesis
      by (intro scoresKept_same)
         (simp_all add: createAnswerFinish_def updateParticipant_def Let_def)
  next
    case current: (Some current)
    then have g: "getParticipant st (ians_participantId answer) = Some current"
      by (simp add: getParticipant_def)
    from c [OF g] have same: "part_score snap = part_score current" by simp
    from stored_numeric [OF assms(3) g] obtain s
      where s: "part_score current = Points s" and r: "representable s"
      by (cases "part_score current") simp_all
    let ?q = "current\<lparr>part_score := Points (js_add s (ians_score answer))\<rparr>"
    have st': "participants (createAnswerFinish st answer read)
        = AList.update (ians_participantId answer) ?q (participants st)"
      and n: "participantId (createAnswerFinish st answer read) = participantId st"
      using Some i current same s
      by (simp_all add: createAnswerFinish_def updateParticipant_def Let_def spread_scorePatch)
    from r assms(4) have "s \<le> js_add s (ians_score answer)" by (rule js_add_increases)
    moreover have "representable (js_add s (ians_score answer))"
      by (rule representable_js_add)
    ultimately show ?thesis
      using assms(1-3) current s st' n
      by (intro scoresKept_update [where i = "ians_participantId answer" and p = current and q = ?q])
         simp_all
  qed
qed

lemma createAnswer_scoresKept:
  assumes "participantsKeyed st" "participantsFresh st" "participantsNumeric st"
    and "0 \<le> ians_score answer"
  shows "scoresKept {ians_participantId answer} st (snd (createAnswer st answer))"
proof -
  let ?st1 = "snd (createAnswerStart st answer)"
  let ?read = "snd (fst (createAnswerStart st answer))"
  have p: "participants ?st1 = participants st" "participantId ?st1 = participantId st"
    by (simp_all add: createAnswerStart_participants)
  then have g: "getParticipant ?st1 k = getParticipant st k" for k
    by (simp add: getParticipant_def)
  from assms(1-3) p have inv: "participantsKeyed ?st1" "participantsFresh ?st1"
      "participantsNumeric ?st1"
    by (simp_all add: participantsKeyed_def participantsFresh_def participantsNumeric_def)
  have "scoresKept {ians_participantId answer} ?st1 (createAnswerFinish ?st1 answer ?read)"
  proof (rule createAnswerFinish_scoresKept [OF inv assms(4)])
    fix snap assume "?read = Some snap"
    then have r: "getParticipant st (ians_participantId answer) = Some snap"
      by (simp add: createAnswerStart_fst)
    from stored_keyed [OF assms(1) r] r
    show "part_id snap = Some (ians_participantId answer) \<and>
      (\<forall>current. getParticipant ?st1 (ians_participantId answer) = Some current \<longrightarrow>
         part_score current = part_score snap)"
      by (simp add: g)
  qed
  then show ?thesis
    by (simp add: createAnswer_steps scoresKept_cong [OF p])
qed

lemma perform_scoresKept:
  assumes "participantsKeyed st" "participantsFresh st" "participantsNumeric st"
    and "incrementsOnly operation"
  shows "scoresKept (case operation of CreateAnswer answer \<Rightarrow> {ians_participantId answer} | _ \<Rightarrow> {})
           st (perform operation st)"
proof (cases operation)
  case (CreateAdmin admin)
  then show ?thesis
    using assms by (simp, intro scoresKept_same) (simp_all add: createAdmin_def Let_def)
next
  case (CreateQuiz now quiz)
  then show ?thesis
    using assms by (simp, intro scoresKept_same) (simp_all add: createQuiz_def Let_def)
next
  case (UpdateQuiz i quiz)
  then show ?thesis
    using assms
    by (simp, intro scoresKept_same) (simp_all add: updateQuiz_def Let_def split: option.splits)
next
  case (DeleteQuiz i)
  then show ?thesis
    using assms deleteQuiz_sub [of st i]
    by (simp, intro scoresKept_sub) simp_all
next
  case (CreateQuestion question)
  then show ?thesis
    using assms by (simp, intro scoresKept_same) (simp_all add: createQuestion_def Let_def)
next
  case (UpdateQuestion i question)
  then show ?thesis
    using assms
    by (simp, intro scoresKept_same) (simp_all add: updateQuestion_def Let_def split: option.splits)
next
  case (DeleteQuestion i)
  then show ?thesis
    using assms by (simp, intro scoresKept_same) (simp_all add: deleteQuestion_participants)
next
  case (CreateParticipant now participant)
  let ?st' = "snd (createParticipant st now participant)"
  let ?new = "fst (createParticipant st now participant)"
  from assms(2) have "participantId st \<notin> fst ` set (participants st)"
    unfolding participantsFresh_def by (rule fresh_notin)
  then have p: "participants ?st' = participants st @ [(participantId st, ?new)]"
    and c: "participantId ?st' = participantId st + 1"
    by (simp_all add: createParticipant_def Let_def update_fresh)
  have i: "part_id ?new = Some (participantId st)"
    by (simp add: createParticipant_def Let_def)
  from assms(4) CreateParticipant have "isNumber (part_score ?new)"
    by (simp add: createParticipant_def Let_def representable_small split: option.splits)
  with assms(1,2,3) have "participantsKeyed ?st'" "participantsFresh ?st'" "participantsNumeric ?st'"
    unfolding participantsKeyed_def participantsFresh_def participantsNumeric_def p c
    by (auto simp: i list_all_iff)
  moreover have "getParticipant ?st' k = getParticipant st k" if "k < participantId st" for k
    using that by (simp add: getParticipant_def createParticipant_def Let_def update_conv')
  moreover have "score_le (part_score q) (part_score q)" if "getParticipant st k = Some q" for k q
    using stored_numeric [OF assms(3) that] by (rule isNumber_le)
  ultimately show ?thesis
    by (simp add: scoresKept_def CreateParticipant c)
next
  case (UpdateParticipant i participant)
  show ?thesis
  proof (cases "map_of (participants st) i")
    case None
    with UpdateParticipant assms show ?thesis
      by (simp, intro scoresKept_same) (simp_all add: updateParticipant_def)
  next
    case (Some p)
    then have "getParticipant st i = Some p" by (simp add: getParticipant_def)
    from stored_numeric [OF assms(3) this] have "isNumber (part_score p)" .
    with Some UpdateParticipant assms show ?thesis
      by (simp, intro scoresKept_update [where i = i and p = p and q = "spreadParticipant p participant"])
         (simp_all add: updateParticipant_def Let_def spreadParticipant_def orElse_def isNumber_le)
  qed
next
  case (CreateAnswer answer)
  with assms createAnswer_scoresKept [of st answer] show ?thesis
    by simp
qed

lemma performDeletion_scoresKept:
  assumes "participantsKeyed st" "participantsFresh st" "participantsNumeric st"
  shows "scoresKept {} st (performDeletion d st)"
proof (cases d)
  case (ParticipantsDelete i)
  with assms set_delete_subset [of i "participants st"] show ?thesis
    by (intro scoresKept_sub) (simp_all add: delete_conv')
qed (use assms in \<open>simp_all add: scoresKept_same\<close>)

lemma waitingCurrent_kept:
  assumes "waitingCurrent st waiting" "scoresKept K st st'"
    and "\<And>w. w \<in> set waiting \<Longrightarrow> ians_participantId (fst w) \<notin> K"
  shows "waitingCurrent st' waiting"
  unfolding waitingCurrent_def
proof (intro conjI ballI allI impI)
  from assms(1) show "distinct (map (\<lambda>w. ians_participantId (fst w)) waiting)"
    by (simp add: waitingCurrent_def)
next
  fix w assume "w \<in> set waiting"
  with assms(1) show "0 \<le> ians_score (fst w)" by (simp add: waitingCurrent_def)
next
  fix w read assume w: "w \<in> set waiting" and r: "snd w = Some read"
  with assms(1) show "part_id read = Some (ians_participantId (fst w))"
    by (simp add: waitingCurrent_def)
  from w r assms(1) have b: "ians_participantId (fst w) < participantId st"
    by (simp add: waitingCurrent_def)
  with assms(2) show "ians_participantId (fst w) < participantId st'"
    by (simp add: scoresKept_def)
  fix current assume c: "getParticipant st' (ians_participantId (fst w)) = Some current"
  from assms(3) [OF w] have "ians_participantId (fst w) \<notin> K" .
  with assms(2) b c obtain p where "getParticipant st (ians_participantId (fst w)) = Some p"
    and "part_score current = part_score p"
    unfolding scoresKept_def by blast
  with w r assms(1) show "part_score current = part_score read"
    by (simp add: waitingCurrent_def)
qed

lemma distinct_without_nth:
  assumes "distinct (map f xs)" "n < length xs"
  shows "distinct (map f (take n xs @ drop (Suc n) xs))"
    and "\<And>w. w \<in> set (take n xs @ drop (Suc n) xs) \<Longrightarrow> f w \<noteq> f (xs ! n) \<and> w \<in> set xs"
proof -
  from assms(2) have "xs = take n xs @ xs ! n # drop (Suc n) xs"
    by (rule id_take_nth_drop)
  then have "distinct (map f (take n xs @ xs ! n # drop (Suc n) xs))"
    using assms(1) by simp
  then have d: "distinct (map f (take n xs) @ f (xs ! n) # map f (drop (Suc n) xs))"
    by simp
  then show "distinct (map f (take n xs @ drop (Suc n) xs))"
    by auto
  fix w assume w: "w \<in> set (take n xs @ drop (Suc n) xs)"
  then have "w \<in> set xs"
    by (auto dest: in_set_takeD in_set_dropD)
  moreover from d have "f (xs ! n) \<notin> f ` set (take n xs @ drop (Suc n) xs)"
    by auto
  with w have "f w \<noteq> f (xs ! n)"
    by (metis imageI)
  ultimately show "f w \<noteq> f (xs ! n) \<and> w \<in> set xs" by simp
qed

lemma waitingCurrent_without_nth:
  assumes "waitingCurrent st waiting" "n < length waiting"
  shows "waitingCurrent st (take n waiting @ drop (Suc n) waiting)"
  unfolding waitingCurrent_def
proof (intro conjI ballI)
  from assms show "distinct (map (\<lambda>w. ians_participantId (fst w)) (take n waiting @ drop (Suc n) waiting))"
    by (intro distinct_without_nth(1)) (simp_all add: waitingCurrent_def)
next
  fix w assume "w \<in> set (take n waiting @ drop (Suc n) waiting)"
  then have "w \<in> set waiting"
    by (auto dest: in_set_takeD in_set_dropD)
  with assms(1) show "0 \<le> ians_score (fst w)"
    and "\<forall>read. snd w = Some read \<longrightarrow>
           part_id read = Some (ians_participantId (fst w)) \<and>
           ians_participantId (fst w) < participantId st \<and>
           (\<forall>current. getParticipant st (ians_participantId (fst w)) = Some current \<longrightarrow>
              part_score current = part_score read)"
    by (simp_all add: waitingCurrent_def)
qed

text \<open>
  One admitted event keeps the stored scores and what holds of the waiting calls.
\<close>

lemma step_scoresKept:
  assumes inv: "participantsKeyed st" "participantsFresh st" "participantsNumeric st"
    and w: "waitingCurrent st waiting"
    and a: "admitted e waiting"
  shows "\<exists>K. scoresKept K st (fst (step e (st, waiting))) \<and>
             waitingCurrent (fst (step e (st, waiting))) (snd (step e (st, waiting)))"
proof (cases e)
  case (Call operation)
  let ?K = "case operation of CreateAnswer answer \<Rightarrow> {ians_participantId answer} | _ \<Rightarrow> {}"
  from a Call have i: "incrementsOnly operation"
    by (simp add: admitted_def)
  from inv i have k: "scoresKept ?K st (perform operation st)"
    by (rule perform_scoresKept)
  have "ians_participantId (fst v) \<notin> ?K" if "v \<in> set waiting" for v
    using a Call that by (cases operation) (auto simp: admitted_def notWaiting_def list_all_iff)
  with w k have "waitingCurrent (perform operation st) waiting"
    by (rule waitingCurrent_kept)
  with k Call show ?thesis
    by auto
next
  case (Deletes d)
  from inv have k: "scoresKept {} st (performDeletion d st)"
    by (rule performDeletion_scoresKept)
  with w have "waitingCurrent (performDeletion d st) waiting"
    by (rule waitingCurrent_kept) simp
  with k Deletes show ?thesis
    by auto
next
  case (CreateAnswerStarts answer)
  let ?st1 = "snd (createAnswerStart st answer)"
  let ?read = "getParticipant st (ians_participantId answer)"
  have s: "step e (st, waiting) = (?st1, waiting @ [(answer, ?read)])"
    by (simp add: CreateAnswerStarts split_beta Let_def createAnswerStart_fst)
  from inv have k: "scoresKept {} st ?st1"
    by (intro scoresKept_same) (simp_all add: createAnswerStart_participants)
  with w have old: "waitingCurrent ?st1 waiting"
    by (rule waitingCurrent_kept) simp
  have g: "getParticipant ?st1 i = getParticipant st i" for i
    by (simp add: getParticipant_def createAnswerStart_participants)
  from a CreateAnswerStarts have n: "0 \<le> ians_score answer"
    and f: "ians_participantId answer \<notin> (\<lambda>w. ians_participantId (fst w)) ` set waiting"
    by (auto simp: admitted_def notWaiting_def list_all_iff)
  have new: "part_id read = Some (ians_participantId answer) \<and>
      ians_participantId answer < participantId ?st1 \<and>
      (\<forall>current. getParticipant ?st1 (ians_participantId answer) = Some current \<longrightarrow>
         part_score current = part_score read)"
    if "?read = Some read" for read
    using stored_keyed [OF inv(1) that] stored_fresh [OF inv(2) that] that
    by (simp add: g createAnswerStart_participants)
  from old n f new have "waitingCurrent ?st1 (waiting @ [(answer, ?read)])"
    unfolding waitingCurrent_def by auto
  with k s show ?thesis
    by auto
next
  case (CreateAnswerFinishes n)
  show ?thesis
  proof (cases "n < length waiting")
    case False
    from inv have "scoresKept {} st st"
      by (rule scoresKept_same) simp_all
    with False w CreateAnswerFinishes show ?thesis
      by auto
  next
    case True
    let ?answer = "fst (waiting ! n)"
    let ?read = "snd (waiting ! n)"
    let ?st' = "createAnswerFinish st ?answer ?read"
    let ?rest = "take n waiting @ drop (Suc n) waiting"
    from True have s: "step e (st, waiting) = (?st', ?rest)"
      by (simp add: CreateAnswerFinishes)
    from True have m: "waiting ! n \<in> set waiting" by simp
    with w have p: "0 \<le> ians_score ?answer"
      and r: "\<And>snap. ?read = Some snap \<Longrightarrow>
           part_id snap = Some (ians_participantId ?answer) \<and>
           (\<forall>current. getParticipant st (ians_participantId ?answer) = Some current \<longrightarrow>
              part_score current = part_score snap)"
      by (simp_all add: waitingCurrent_def)
    from inv p r have k: "scoresKept {ians_participantId ?answer} st ?st'"
      by (rule createAnswerFinish_scoresKept)
    from w True have rest: "waitingCurrent st ?rest"
      by (rule waitingCurrent_without_nth)
    from w have "distinct (map (\<lambda>w. ians_participantId (fst w)) waiting)"
      by (simp add: waitingCurrent_def)
    from distinct_without_nth(2) [OF this True]
    have other: "ians_participantId (fst v) \<notin> {ians_participantId ?answer}"
      if "v \<in> set ?rest" for v
      using that by simp
    from rest k other have "waitingCurrent ?st' ?rest"
      by (rule waitingCurrent_kept)
    with k s show ?thesis
      by auto
  qed
qed

lemma fold_step_scores:
  assumes "participantsKeyed st" "participantsFresh st" "participantsNumeric st"
    and "waitingCurrent st waiting" "admittedRun events (st, waiting)"
    and "k < participantId st" "getParticipant (fst (fold step events (st, waiting))) k = Some p'"
  shows "\<exists>p. getParticipant st k = Some p \<and> score_le (part_score p) (part_score p')"
  using assms
proof (induction events arbitrary: st waiting)
  case Nil
  from stored_numeric [OF Nil(3)] Nil(7) show ?case
    by (simp add: isNumber_le)
next
  case (Cons e events)
  obtain st1 waiting1 where s: "step e (st, waiting) = (st1, waiting1)"
    by (cases "step e (st, waiting)")
  from Cons.prems(5) have a: "admitted e waiting" and run: "admittedRun events (st1, waiting1)"
    by (simp_all add: s)
  from step_scoresKept [OF Cons.prems(1-4) a] obtain K
    where k: "scoresKept K st st1" and w: "waitingCurrent st1 waiting1"
    by (auto simp: s)
  from k have inv: "participantsKeyed st1" "participantsFresh st1" "participantsNumeric st1"
    and c: "participantId st \<le> participantId st1"
    by (simp_all add: scoresKept_def)
  from Cons.prems(6) c have "k < participantId st1" by simp
  moreover from Cons.prems(7) have "getParticipant (fst (fold step events (st1, waiting1))) k = Some p'"
    by (simp add: s)
  ultimately obtain q where q: "getParticipant st1 k = Some q"
    and le: "score_le (part_score q) (part_score p')"
    using Cons.IH [OF inv w run] by blast
  from k Cons.prems(6) q obtain p where "getParticipant st k = Some p"
    and "score_le (part_score p) (part_score q)"
    unfolding scoresKept_def by blast
  with le show ?case
    by (auto intro: score_le_trans)
qed

text \<open>
  Calls that run one after the other, each to its end, are a run of events, and an admitted
  one when each call is \<open>incrementsOnly\<close>.
\<close>

lemma fold_step_Call:
  "fold step (map Call operations) (st, waiting) = (fold perform operations st, waiting)"
  by (induction operations arbitrary: st) simp_all

lemma admittedRun_Call:
  "list_all incrementsOnly operations \<Longrightarrow> admittedRun (map Call operations) (st, [])"
proof (induction operations arbitrary: st)
  case Nil
  then show ?case by simp
next
  case (Cons operation operations)
  then show ?case
    by (cases operation) (simp_all add: admitted_def notWaiting_def)
qed


lemma fold_perform_scores:
  assumes "participantsKeyed st" "participantsFresh st" "participantsNumeric st"
    and "list_all incrementsOnly operations"
    and "getParticipant st k = Some p" "getParticipant (fold perform operations st) k = Some p'"
  shows "score_le (part_score p) (part_score p')"
proof -
  from assms(2,5) have "k < participantId st"
    by (rule stored_fresh)
  moreover have "waitingCurrent st []"
    by (simp add: waitingCurrent_def)
  moreover from assms(4) have "admittedRun (map Call operations) (st, [])"
    by (rule admittedRun_Call)
  moreover from assms(6) have "getParticipant (fst (fold step (map Call operations) (st, []))) k = Some p'"
    by (simp add: fold_step_Call)
  ultimately obtain q where "getParticipant st k = Some q"
    and "score_le (part_score q) (part_score p')"
    using fold_step_scores [OF assms(1,2,3)] by blast
  with assms(5) show ?thesis by simp
qed


text \<open>
  The amended statement also asks that participants are stored under their own ids. Where
  a patch has changed an id, \<^verbatim>\<open>createAnswer\<close> sends the new score to another key: with Alice
  re-numbered to 2, an answer of Alice worth 0 points overwrites Bob's 200 points by her 150.
\<close>

lemma score_overwritten_after_id_patch:
  "map_option part_score (getParticipant
     (fold perform
        [CreateParticipant 10 \<lparr>ipart_quizId = 1, ipart_alias = ''Alice'', ipart_score = Some 150\<rparr>,
         CreateParticipant 20 \<lparr>ipart_quizId = 1, ipart_alias = ''Bob'', ipart_score = Some 200\<rparr>,
         UpdateParticipant 1 \<lparr>ppart_id = Some (Some 2), ppart_quizId = None, ppart_alias = None,
           ppart_score = None, ppart_joinedAt = None\<rparr>,
         CreateAnswer \<lparr>ians_participantId = 1, ians_questionId = 1, ians_selectedOption = 1,
           ians_isCorrect = False, ians_responseTime = 3000, ians_score = 0\<rparr>]
        (newMemStorage 0)) 2) = Some (Points 150)"
  by code_simp




subsection \<open>Join codes\<close>

lemma upt_6: "[0..<6] = [0, 1, 2, 3, 4, 5]"
  by (simp add: upt_rec)

lemma drawCode_in_range:
  assumes "\<forall>k. randomInt k < length characters"
  shows "length (drawCode randomInt n) = 6 \<and> set (drawCode randomInt n) \<subseteq> set characters"
proof -
  have "charAt characters (randomInt k) = [characters ! randomInt k]" for k
    using assms by (simp add: charAt_def)
  moreover have "characters ! randomInt k \<in> set characters" for k
    using assms by (simp only: nth_mem)
  ultimately show ?thesis
    by (simp add: drawCode_def upt_6)
qed

lemma getQuizByCode_None:
  "getQuizByCode st code = None \<longleftrightarrow> code \<notin> quiz_code ` snd ` set (quizzes st)"
  by (auto simp: getQuizByCode_def find_None_iff)

lemma generateQuizCode_returns:
  assumes "\<forall>k. randomInt k < length characters"
    and "getQuizByCode st (drawCode randomInt (n + 6 * j)) = None"
  shows "\<exists>code. generateQuizCode st randomInt n = Some code \<and> length code = 6 \<and>
           set code \<subseteq> set characters \<and> code \<notin> quiz_code ` snd ` set (quizzes st)"
  using assms(2)
proof (induction j arbitrary: n)
  case 0
  then have "generateQuizCode st randomInt n = Some (drawCode randomInt n)"
    by (subst generateQuizCode.simps) simp
  with 0 drawCode_in_range [OF assms(1), of n] show ?case
    by (simp add: getQuizByCode_None)
next
  case (Suc j)
  show ?case
  proof (cases "getQuizByCode st (drawCode randomInt n) = None")
    case True
    then have "generateQuizCode st randomInt n = Some (drawCode randomInt n)"
      by (subst generateQuizCode.simps) simp
    with True drawCode_in_range [OF assms(1), of n] show ?thesis
      by (simp add: getQuizByCode_None)
  next
    case False
    then have "generateQuizCode st randomInt n = generateQuizCode st randomInt (n + 6)"
      by (subst generateQuizCode.simps) simp
    moreover from Suc.prems have "getQuizByCode st (drawCode randomInt (n + 6 + 6 * j)) = None"
      by (simp add: algebra_simps)
    ultimately show ?thesis
      using Suc.IH [of "n + 6"] by simp
  qed
qed

text \<open>
  C7. \<^verbatim>\<open>generateQuizCode\<close> returns a string of exactly 6 characters, each from the alphabet
  \<^verbatim>\<open>ABCDEFGHJKLMNPQRSTUVWXYZ23456789\<close>, that is the code of no quiz in the store. It returns
  as soon as one attempt draws a code that is not taken (attempt \<open>j\<close> uses the draws
  \<open>6 * j\<close> to \<open>6 * j + 5\<close>); \<^verbatim>\<open>crypto.randomInt(0, characters.length)\<close> returns an index below
  the length of the alphabet.
\<close>

theorem generateQuizCode_fresh_code:
  assumes "\<forall>k. randomInt k < length characters"
    and "getQuizByCode st (drawCode randomInt (6 * j)) = None"
  shows "\<exists>code. generateQuizCode st randomInt 0 = Some code \<and> length code = 6 \<and>
           set code \<subseteq> set characters \<and> code \<notin> quiz_code ` snd ` set (quizzes st)"
  using generateQuizCode_returns [OF assms(1), of st 0 j] assms(2) by simp

text \<open>
  With the codes GEO123 and AAAAAA taken and a random source that draws index 0 six times
  and index 1 from then on, the first attempt AAAAAA collides and the method still returns a
  code of six characters of the alphabet that is neither: the second attempt, BBBBBB.
\<close>

theorem generateQuizCode_fresh_code_witness:
  "(\<forall>k::nat. (if k < 6 then 0 else 1) < length characters) \<and>
   getQuizByCode
     (snd (createQuiz (newMemStorage 0) 0
        \<lparr>iquiz_adminId = 1, iquiz_title = ''Rivers'', iquiz_timePerQuestion = None,
         iquiz_status = None, iquiz_code = ''AAAAAA''\<rparr>))
     (drawCode (\<lambda>k. if k < 6 then 0 else 1) 0) \<noteq> None \<and>
   (\<exists>code. generateQuizCode
      (snd (createQuiz (newMemStorage 0) 0
        \<lparr>iquiz_adminId = 1, iquiz_title = ''Rivers'', iquiz_timePerQuestion = None,
         iquiz_status = None, iquiz_code = ''AAAAAA''\<rparr>))
      (\<lambda>k. if k < 6 then 0 else 1) 0 = Some code \<and> length code = 6 \<and>
      set code \<subseteq> set characters \<and> code \<noteq> ''AAAAAA'' \<and> code \<noteq> ''GEO123'') \<and>
   generateQuizCode
      (snd (createQuiz (newMemStorage 0) 0
        \<lparr>iquiz_adminId = 1, iquiz_title = ''Rivers'', iquiz_timePerQuestion = None,
         iquiz_status = None, iquiz_code = ''AAAAAA''\<rparr>))
      (\<lambda>k. if k < 6 then 0 else 1) 0 = Some ''BBBBBB''"
proof -
  let ?st = "snd (createQuiz (newMemStorage 0) 0
        \<lparr>iquiz_adminId = 1, iquiz_title = ''Rivers'', iquiz_timePerQuestion = None,
         iquiz_status = None, iquiz_code = ''AAAAAA''\<rparr>)"
  let ?r = "\<lambda>k::nat. if k < 6 then 0 else (1::nat)"
  have r: "\<forall>k. ?r k < length characters" by (simp add: characters_def)
  have q: "map (quiz_code \<circ> snd) (quizzes ?st) = [''GEO123'', ''AAAAAA'']"
    by code_simp
  have d0: "drawCode ?r 0 = ''AAAAAA''" and d1: "drawCode ?r (6 * 1) = ''BBBBBB''"
    by code_simp+
  have c: "quiz_code ` snd ` set (quizzes ?st) = {''GEO123'', ''AAAAAA''}"
    using arg_cong [OF q, of set] by (simp add: image_image) 
  have f: "getQuizByCode ?st (drawCode ?r (6 * 1)) = None"
    unfolding getQuizByCode_None c d1 by simp
  have g: "getQuizByCode ?st (drawCode ?r 0) \<noteq> None"
    unfolding getQuizByCode_None c d0 by simp
  have v: "generateQuizCode ?st ?r 0 = Some ''BBBBBB''"
    by code_simp
  from generateQuizCode_fresh_code [OF r f] have "\<exists>code. generateQuizCode ?st ?r 0 = Some code \<and>
      length code = 6 \<and> set code \<subseteq> set characters \<and> code \<noteq> ''AAAAAA'' \<and> code \<noteq> ''GEO123''"
    unfolding c by auto
  with r g v show ?thesis
    by (simp only: simp_thms)
qed

end
